theory Spec2Isabelle
  imports Complex_Main "HOL-Library.Multiset"
begin

section \<open>JavaScript numbers that occur as travel times\<close>

text \<open>
  A cell of the provider's \<open>duration_s\<close> matrix is either a whole number of seconds
  (\<open>parseDurationSeconds\<close> returns \<open>Math.round\<close> of a number or \<open>parseInt\<close> of the
  digits) or the value \<open>Infinity\<close> the matrix was filled with (google-matrix.js,
  \<open>Array(n).fill(Infinity)\<close>).
\<close>

datatype jsnum = Fin int | Infinity

text \<open>The JavaScript comparison \<open>a < b\<close> on these values.\<close>

fun js_lt :: "jsnum \<Rightarrow> jsnum \<Rightarrow> bool" where
  "js_lt (Fin a) (Fin b) = (a < b)"
| "js_lt (Fin a) Infinity = True"
| "js_lt Infinity b = False"

text \<open>\<open>Number.isFinite\<close>.\<close>

fun isFinite :: "jsnum \<Rightarrow> bool" where
  "isFinite (Fin a) = True"
| "isFinite Infinity = False"

section \<open>Day planner: greedy nearest-neighbour ordering (routes/planner.js)\<close>

text \<open>
  The matrix \<open>dur\<close> is \<open>matrixResp.matrix.duration_s\<close>, a list of rows; the provider
  builds it with \<open>n\<close> rows of \<open>n\<close> cells for the \<open>n\<close> waypoints it was given.
\<close>

definition dur_at :: "jsnum list list \<Rightarrow> nat \<Rightarrow> nat \<Rightarrow> jsnum" where
  "dur_at dur i j = dur ! i ! j"

text \<open>
  The inner loop \<open>for (const idx of unused)\<close>: the state is \<open>(best, bestd)\<close>, the set
  \<open>unused\<close> is iterated in insertion order, and a candidate replaces the current best
  only when \<open>d < bestd\<close>.
\<close>

fun scan_unused :: "jsnum list list \<Rightarrow> nat \<Rightarrow> nat list \<Rightarrow> nat option \<times> jsnum \<Rightarrow> nat option \<times> jsnum" where
  "scan_unused dur lst [] st = st"
| "scan_unused dur lst (idx # rest) (best, bestd) =
     (let d = dur_at dur lst idx
      in if js_lt d bestd then scan_unused dur lst rest (Some idx, d)
         else scan_unused dur lst rest (best, bestd))"

definition pick_best :: "jsnum list list \<Rightarrow> nat \<Rightarrow> nat list \<Rightarrow> nat option" where
  "pick_best dur lst unused = fst (scan_unused dur lst unused (None, Infinity))"

lemma scan_unused_mem:
  "fst (scan_unused dur lst unused (best, bestd)) = Some b \<Longrightarrow> b \<in> set unused \<or> best = Some b"
  by (induction unused arbitrary: best bestd) (auto simp: Let_def split: if_splits)

lemma pick_best_mem: "pick_best dur lst unused = Some b \<Longrightarrow> b \<in> set unused"
  using scan_unused_mem [of dur lst unused None Infinity b] by (simp add: pick_best_def)

text \<open>
  The outer loop \<open>while (unused.size)\<close>: \<open>order\<close> is the array built so far (never
  empty, it starts as \<open>[0]\<close>), \<open>unused\<close> the remaining set in insertion order. When no
  candidate beats \<open>Infinity\<close> the loop is left by \<open>break\<close>.
\<close>

function greedy :: "jsnum list list \<Rightarrow> nat list \<Rightarrow> nat list \<Rightarrow> nat list" where
  "greedy dur order unused =
     (if unused = [] then order
      else (case pick_best dur (last order) unused of
              None \<Rightarrow> order
            | Some best \<Rightarrow> greedy dur (order @ [best]) (remove1 best unused)))"
  by pat_completeness auto
termination
proof (relation "measure (\<lambda>(dur, order, unused). length unused)")
  show "wf (measure (\<lambda>(dur, order, unused). length unused))" by simp
next
  fix dur :: "jsnum list list" and order unused :: "nat list" and best :: nat
  assume "unused \<noteq> []" and "pick_best dur (last order) unused = Some best"
  then have "best \<in> set unused" by (simp add: pick_best_mem)
  then show "((dur, order @ [best], remove1 best unused), (dur, order, unused))
      \<in> measure (\<lambda>(dur, order, unused). length unused)"
    using length_pos_if_in_set [of best unused] by (simp add: length_remove1)
qed

declare greedy.simps [simp del]

text \<open>
  \<open>const order = [0]; const unused = new Set(Array.from({length: n-2}, (_,k) => k+1));\<close>
  the loop; then \<open>order.push(n-1)\<close>.
\<close>

definition tsp_order :: "jsnum list list \<Rightarrow> nat \<Rightarrow> nat list" where
  "tsp_order dur n = greedy dur [0] [1..<n - 1] @ [n - 1]"

subsection \<open>Properties of the comparison and of one scan\<close>

lemma js_lt_irrefl [simp]: "\<not> js_lt a a" by (cases a) auto
lemma js_lt_trans: "js_lt a b \<Longrightarrow> js_lt b c \<Longrightarrow> js_lt a c"
  by (cases a; cases b; cases c) auto
lemma js_lt_not_trans: "js_lt a b \<Longrightarrow> \<not> js_lt c b \<Longrightarrow> js_lt a c"
  by (cases a; cases b; cases c) auto
lemma js_not_lt_trans: "\<not> js_lt a b \<Longrightarrow> \<not> js_lt b c \<Longrightarrow> \<not> js_lt a c"
  by (cases a; cases b; cases c) auto
lemma js_lt_Infinity: "js_lt a Infinity = isFinite a" by (cases a) auto

lemma scan_unused_spec:
  "scan_unused dur lst unused (best, bestd) = (rb, rd) \<Longrightarrow>
     (rb = best \<and> rd = bestd \<and> (\<forall>i\<in>set unused. \<not> js_lt (dur_at dur lst i) bestd)) \<or>
     (\<exists>pre b post. unused = pre @ b # post \<and> rb = Some b \<and> rd = dur_at dur lst b \<and>
        js_lt (dur_at dur lst b) bestd \<and>
        (\<forall>i\<in>set pre. js_lt (dur_at dur lst b) (dur_at dur lst i)) \<and>
        (\<forall>i\<in>set post. \<not> js_lt (dur_at dur lst i) (dur_at dur lst b)))"
proof (induction unused arbitrary: best bestd)
  case Nil
  then show ?case by simp
next
  case (Cons idx rest)
  let ?d = "dur_at dur lst"
  show ?case
  proof (cases "js_lt (?d idx) bestd")
    case True
    with Cons.prems have "scan_unused dur lst rest (Some idx, ?d idx) = (rb, rd)" by simp
    from Cons.IH [OF this] show ?thesis
    proof
      assume "rb = Some idx \<and> rd = ?d idx \<and> (\<forall>i\<in>set rest. \<not> js_lt (?d i) (?d idx))"
      with True have "idx # rest = [] @ idx # rest \<and> rb = Some idx \<and> rd = ?d idx \<and>
        js_lt (?d idx) bestd \<and> (\<forall>i\<in>set []. js_lt (?d idx) (?d i)) \<and>
        (\<forall>i\<in>set rest. \<not> js_lt (?d i) (?d idx))" by simp
      then show ?thesis by blast
    next
      assume "\<exists>pre b post. rest = pre @ b # post \<and> rb = Some b \<and> rd = ?d b \<and>
        js_lt (?d b) (?d idx) \<and> (\<forall>i\<in>set pre. js_lt (?d b) (?d i)) \<and>
        (\<forall>i\<in>set post. \<not> js_lt (?d i) (?d b))"
      then obtain pre b post where h: "rest = pre @ b # post" "rb = Some b" "rd = ?d b"
        "js_lt (?d b) (?d idx)" "\<forall>i\<in>set pre. js_lt (?d b) (?d i)"
        "\<forall>i\<in>set post. \<not> js_lt (?d i) (?d b)" by blast
      from h(4) True have "js_lt (?d b) bestd" by (rule js_lt_trans)
      with h have "idx # rest = (idx # pre) @ b # post \<and> rb = Some b \<and> rd = ?d b \<and>
        js_lt (?d b) bestd \<and> (\<forall>i\<in>set (idx # pre). js_lt (?d b) (?d i)) \<and>
        (\<forall>i\<in>set post. \<not> js_lt (?d i) (?d b))" by simp
      then show ?thesis by blast
    qed
  next
    case False
    with Cons.prems have "scan_unused dur lst rest (best, bestd) = (rb, rd)" by simp
    from Cons.IH [OF this] show ?thesis
    proof
      assume "rb = best \<and> rd = bestd \<and> (\<forall>i\<in>set rest. \<not> js_lt (?d i) bestd)"
      with False show ?thesis by simp
    next
      assume "\<exists>pre b post. rest = pre @ b # post \<and> rb = Some b \<and> rd = ?d b \<and>
        js_lt (?d b) bestd \<and> (\<forall>i\<in>set pre. js_lt (?d b) (?d i)) \<and>
        (\<forall>i\<in>set post. \<not> js_lt (?d i) (?d b))"
      then obtain pre b post where h: "rest = pre @ b # post" "rb = Some b" "rd = ?d b"
        "js_lt (?d b) bestd" "\<forall>i\<in>set pre. js_lt (?d b) (?d i)"
        "\<forall>i\<in>set post. \<not> js_lt (?d i) (?d b)" by blast
      from h(4) False have "js_lt (?d b) (?d idx)" by (rule js_lt_not_trans)
      with h have "idx # rest = (idx # pre) @ b # post \<and> rb = Some b \<and> rd = ?d b \<and>
        js_lt (?d b) bestd \<and> (\<forall>i\<in>set (idx # pre). js_lt (?d b) (?d i)) \<and>
        (\<forall>i\<in>set post. \<not> js_lt (?d i) (?d b))" by simp
      then show ?thesis by blast
    qed
  qed
qed

lemma pick_best_spec:
  assumes "pick_best dur lst unused = Some b"
  shows "\<exists>pre post. unused = pre @ b # post \<and> isFinite (dur_at dur lst b) \<and>
        (\<forall>i\<in>set pre. js_lt (dur_at dur lst b) (dur_at dur lst i)) \<and>
        (\<forall>i\<in>set post. \<not> js_lt (dur_at dur lst i) (dur_at dur lst b))"
proof -
  obtain rb rd where r: "scan_unused dur lst unused (None, Infinity) = (rb, rd)"
    by (cases "scan_unused dur lst unused (None, Infinity)")
  with assms have "rb = Some b" by (simp add: pick_best_def)
  with scan_unused_spec [OF r] show ?thesis by (auto simp: js_lt_Infinity)
qed

lemma pick_best_None:
  assumes "pick_best dur lst unused = None"
  shows "\<forall>i\<in>set unused. \<not> isFinite (dur_at dur lst i)"
proof -
  obtain rb rd where r: "scan_unused dur lst unused (None, Infinity) = (rb, rd)"
    by (cases "scan_unused dur lst unused (None, Infinity)")
  with assms have "rb = None" by (simp add: pick_best_def)
  with scan_unused_spec [OF r] show ?thesis by (auto simp: js_lt_Infinity)
qed

text \<open>
  What one pass of the inner loop chooses, when \<open>unused\<close> is in ascending order: a
  member of the remaining set that no other member beats, and the smallest index among
  the members with the same travel time.
\<close>

definition choice_ok :: "jsnum list list \<Rightarrow> nat \<Rightarrow> nat set \<Rightarrow> nat \<Rightarrow> bool" where
  "choice_ok dur lst remaining b \<longleftrightarrow>
     b \<in> remaining \<and>
     (\<forall>j\<in>remaining. \<not> js_lt (dur_at dur lst j) (dur_at dur lst b) \<and>
        (dur_at dur lst j = dur_at dur lst b \<longrightarrow> b \<le> j))"

lemma pick_best_choice_ok:
  assumes "pick_best dur lst unused = Some b" and "sorted unused"
  shows "choice_ok dur lst (set unused) b"
proof -
  from pick_best_spec [OF assms(1)] obtain pre post where
    u: "unused = pre @ b # post" and
    pre: "\<forall>i\<in>set pre. js_lt (dur_at dur lst b) (dur_at dur lst i)" and
    post: "\<forall>i\<in>set post. \<not> js_lt (dur_at dur lst i) (dur_at dur lst b)" by blast
  from assms(2) u have le: "\<forall>i\<in>set post. b \<le> i" by (simp add: sorted_append)
  show ?thesis unfolding choice_ok_def
  proof (intro conjI ballI)
    show "b \<in> set unused" using u by simp
  next
    fix j assume "j \<in> set unused"
    then consider "j \<in> set pre" | "j = b" | "j \<in> set post" using u by auto
    then show "\<not> js_lt (dur_at dur lst j) (dur_at dur lst b)"
    proof cases
      case 1
      with pre have "js_lt (dur_at dur lst b) (dur_at dur lst j)" by blast
      then show ?thesis by (cases "dur_at dur lst b"; cases "dur_at dur lst j") auto
    qed (use post in auto)
  next
    fix j assume "j \<in> set unused"
    then consider "j \<in> set pre" | "j = b" | "j \<in> set post" using u by auto
    then show "dur_at dur lst j = dur_at dur lst b \<longrightarrow> b \<le> j"
    proof cases
      case 1
      with pre have "js_lt (dur_at dur lst b) (dur_at dur lst j)" by blast
      then show ?thesis by auto
    qed (use le in auto)
  qed
qed

lemma greedy_choices:
  assumes "sorted unused" and "distinct unused"
  shows "\<exists>ext. greedy dur order unused = order @ ext \<and> distinct ext \<and> set ext \<subseteq> set unused \<and>
           (\<forall>k<length ext. choice_ok dur (last (order @ take k ext))
                               (set unused - set (take k ext)) (ext ! k))"
  using assms
proof (induction dur order unused rule: greedy.induct)
  case (1 dur order unused)
  show ?case
  proof (cases "unused = []")
    case True
    then show ?thesis by (simp add: greedy.simps)
  next
    case ne: False
    show ?thesis
    proof (cases "pick_best dur (last order) unused")
      case None
      with ne show ?thesis by (simp add: greedy.simps)
    next
      case (Some b)
      have bmem: "b \<in> set unused" using Some by (rule pick_best_mem)
      have ok: "choice_ok dur (last order) (set unused) b"
        using Some "1.prems"(1) by (rule pick_best_choice_ok)
      have s': "sorted (remove1 b unused)" using "1.prems"(1) by (rule sorted_remove1)
      have d': "distinct (remove1 b unused)" using "1.prems"(2) by simp
      from "1.IH" [OF ne Some s' d'] obtain ext where
        e: "greedy dur (order @ [b]) (remove1 b unused) = (order @ [b]) @ ext"
           "distinct ext" "set ext \<subseteq> set (remove1 b unused)"
           "\<forall>k<length ext. choice_ok dur (last ((order @ [b]) @ take k ext))
                               (set (remove1 b unused) - set (take k ext)) (ext ! k)" by blast
      have set': "set (remove1 b unused) = set unused - {b}"
        using "1.prems"(2) by (rule set_remove1_eq)
      have g: "greedy dur order unused = order @ (b # ext)"
        using ne Some e(1) by (subst greedy.simps) simp
      have dist: "distinct (b # ext)" using e(2,3) set' by auto
      have sub: "set (b # ext) \<subseteq> set unused" using e(3) set' bmem by auto
      have steps: "\<forall>k<length (b # ext). choice_ok dur (last (order @ take k (b # ext)))
                               (set unused - set (take k (b # ext))) ((b # ext) ! k)"
      proof (intro allI impI)
        fix k assume k: "k < length (b # ext)"
        show "choice_ok dur (last (order @ take k (b # ext)))
                (set unused - set (take k (b # ext))) ((b # ext) ! k)"
        proof (cases k)
          case 0
          with ok show ?thesis by simp
        next
          case (Suc k')
          with k have "k' < length ext" by simp
          with e(4) have "choice_ok dur (last ((order @ [b]) @ take k' ext))
                               (set (remove1 b unused) - set (take k' ext)) (ext ! k')" by blast
          moreover have "set (remove1 b unused) - set (take k' ext)
              = set unused - set (take k (b # ext))" using Suc set' by auto
          ultimately show ?thesis using Suc by simp
        qed
      qed
      from g dist sub steps show ?thesis by blast
    qed
  qed
qed

text \<open>
  A complete travel matrix: \<open>n\<close> rows of \<open>n\<close> cells, every cell a finite travel time.
\<close>

definition complete_matrix :: "nat \<Rightarrow> jsnum list list \<Rightarrow> bool" where
  "complete_matrix n dur \<longleftrightarrow>
     length dur = n \<and> list_all (\<lambda>row. length row = n \<and> list_all isFinite row) dur"

lemma complete_matrix_finite:
  "complete_matrix n dur \<Longrightarrow> i < n \<Longrightarrow> j < n \<Longrightarrow> isFinite (dur_at dur i j)"
  by (auto simp: complete_matrix_def dur_at_def list_all_length)

lemma greedy_complete:
  assumes "complete_matrix n dur" and "order \<noteq> []" and "\<forall>i\<in>set order. i < n"
    and "\<forall>i\<in>set unused. i < n"
  shows "\<exists>ext. greedy dur order unused = order @ ext \<and> mset ext = mset unused"
  using assms
proof (induction dur order unused rule: greedy.induct)
  case (1 dur order unused)
  show ?case
  proof (cases "unused = []")
    case True
    then show ?thesis by (simp add: greedy.simps)
  next
    case ne: False
    have lst: "last order < n" using "1.prems"(2,3) by simp
    show ?thesis
    proof (cases "pick_best dur (last order) unused")
      case None
      from ne obtain u where u: "u \<in> set unused" by (cases unused) auto
      with "1.prems"(4) have "u < n" by blast
      with "1.prems"(1) lst have "isFinite (dur_at dur (last order) u)"
        by (simp add: complete_matrix_finite)
      with pick_best_None [OF None] u show ?thesis by blast
    next
      case (Some b)
      have bmem: "b \<in> set unused" using Some by (rule pick_best_mem)
      have p2: "order @ [b] \<noteq> []" by simp
      have p3: "\<forall>i\<in>set (order @ [b]). i < n" using "1.prems"(3,4) bmem by auto
      have p4: "\<forall>i\<in>set (remove1 b unused). i < n"
        using "1.prems"(4) by (meson notin_set_remove1)
      from "1.IH" [OF ne Some "1.prems"(1) p2 p3 p4] obtain ext where
        e: "greedy dur (order @ [b]) (remove1 b unused) = (order @ [b]) @ ext"
           "mset ext = mset (remove1 b unused)" by blast
      have g: "greedy dur order unused = order @ (b # ext)"
        using ne Some e(1) by (subst greedy.simps) simp
      have "mset (b # ext) = mset unused" using e(2) bmem by simp
      with g show ?thesis by blast
    qed
  qed
qed

lemma last_prefix_nth: "k < length ext \<Longrightarrow> last (x # take k ext) = (x # ext) ! k"
proof (cases k)
  case 0
  then show ?thesis by simp
next
  case (Suc m)
  assume "k < length ext"
  with Suc have "take k ext \<noteq> []" and "length (take k ext) = Suc m" by auto
  then have "last (take k ext) = take k ext ! m" by (simp add: last_conv_nth)
  with Suc \<open>take k ext \<noteq> []\<close> show ?thesis by simp
qed

text \<open>
  A matrix for four waypoints in which the two candidates 1 and 2 are equally far from
  the origin.
\<close>

definition example_dur :: "jsnum list list" where
  "example_dur = [[Fin 0, Fin 50, Fin 50, Fin 90],
                  [Fin 50, Fin 0, Fin 20, Fin 40],
                  [Fin 50, Fin 20, Fin 0, Fin 30],
                  [Fin 90, Fin 40, Fin 30, Fin 0]]"

lemma example_order: "tsp_order example_dur 4 = [0, 1, 2, 3]"
  by code_simp

text \<open>
  A matrix in which candidate 2 cannot be reached from anywhere: the loop is left by
  \<open>break\<close> and candidate 2 is missing from the order.
\<close>

definition unreachable_dur :: "jsnum list list" where
  "unreachable_dur = [[Fin 0, Fin 50, Infinity, Fin 90],
                      [Fin 50, Fin 0, Infinity, Fin 40],
                      [Fin 50, Fin 20, Fin 0, Fin 30],
                      [Fin 90, Fin 40, Infinity, Fin 0]]"

lemma unreachable_order: "tsp_order unreachable_dur 4 = [0, 1, 3]"
  by code_simp

section \<open>Numbers as strings\<close>

text \<open>
  Coordinates are JavaScript numbers; the model takes the exact value of the number, a
  rational. \<open>Math.round\<close> rounds to the nearest integer, a half upwards.
\<close>

definition js_round :: "rat \<Rightarrow> int" where
  "js_round x = \<lfloor>x + 1 / 2\<rfloor>"

definition digit_char :: "nat \<Rightarrow> char" where
  "digit_char d = char_of (48 + d)"

text \<open>The decimal digits of a natural number, as \<open>String(n)\<close> prints them.\<close>

fun show_nat :: "nat \<Rightarrow> string" where
  "show_nat n = (if n < 10 then [digit_char n] else show_nat (n div 10) @ [digit_char (n mod 10)])"

declare show_nat.simps [simp del]

definition show_int :: "int \<Rightarrow> string" where
  "show_int i = (if i < 0 then CHR ''-'' # show_nat (nat (- i)) else show_nat (nat i))"

text \<open>
  \<open>x.toFixed(f)\<close>: the sign, then the integer \<open>n\<close> nearest to \<open>|x| * 10^f\<close> (the larger
  one of two), printed with at least \<open>f + 1\<close> digits and a point before the last \<open>f\<close>.
\<close>

definition toFixed :: "nat \<Rightarrow> rat \<Rightarrow> string" where
  "toFixed f x =
     (let n = nat \<lfloor>\<bar>x\<bar> * 10 ^ f + 1 / 2\<rfloor>;
          ds = show_nat n;
          m = replicate (Suc f - length ds) (CHR ''0'') @ ds;
          k = length m - f
      in (if x < 0 then ''-'' else []) @ take k m @ (if f = 0 then [] else CHR ''.'' # drop k m))"

text \<open>\<open>xs.join(sep)\<close>.\<close>

fun join :: "string \<Rightarrow> string list \<Rightarrow> string" where
  "join sep [] = []"
| "join sep [x] = x"
| "join sep (x # y # ys) = x @ sep @ join sep (y # ys)"

record geo =
  lat :: rat
  lon :: rat

section \<open>Matrix cache (src/ops/cache-matrix.js)\<close>

text \<open>
  The store is a \<open>Map\<close> from the key string to \<open>{t, v}\<close>. Times are milliseconds since
  the epoch; \<open>iso_t\<close> (the source's \<open>iso\<close>) is the departure time already parsed by \<open>Date.parse\<close>, or \<open>None\<close>
  when the caller gave none (then \<open>Date.now()\<close> stands in).
\<close>

type_synonym 'v matrix_store = "string \<rightharpoonup> (int \<times> 'v)"

definition hashPoints :: "geo list \<Rightarrow> string" where
  "hashPoints points = join ''|'' (map (\<lambda>p. toFixed 4 (lat p) @ '','' @ toFixed 4 (lon p)) points)"

definition timeBucket :: "int option \<Rightarrow> int \<Rightarrow> int" where
  "timeBucket iso_t now = (case iso_t of None \<Rightarrow> now | Some t \<Rightarrow> t) div (5 * 60 * 1000)"

definition matrix_key :: "string \<Rightarrow> geo list \<Rightarrow> int option \<Rightarrow> int \<Rightarrow> string" where
  "matrix_key mode points iso_t now =
     mode @ ''|'' @ hashPoints points @ ''|'' @ show_int (timeBucket iso_t now)"

datatype 'v cache_lookup = Miss string | Hit string 'v

definition getMatrixCache ::
  "'v matrix_store \<Rightarrow> int \<Rightarrow> string \<Rightarrow> geo list \<Rightarrow> int option \<Rightarrow> 'v cache_lookup \<times> 'v matrix_store" where
  "getMatrixCache store now mode points iso_t =
     (let key = matrix_key mode points iso_t now
      in case store key of
           None \<Rightarrow> (Miss key, store)
         | Some (t, v) \<Rightarrow>
             if now - t > 60000 then (Miss key, store(key := None))
             else (Hit key v, store))"

definition setMatrixCache :: "'v matrix_store \<Rightarrow> int \<Rightarrow> string \<Rightarrow> 'v \<Rightarrow> 'v matrix_store" where
  "setMatrixCache store now key v = store(key \<mapsto> (now, v))"

text \<open>
  The answer of the matrix provider (\<open>googleComputeRouteMatrix\<close>): a failure, or
  \<open>{ok, n, matrix: {duration_s, distance_m}}\<close> with two \<open>n\<close> by \<open>n\<close> matrices.
\<close>

record matrix_result =
  mx_n :: nat
  duration_s :: "jsnum list list"
  distance_m :: "jsnum list list"

datatype matrix_resp = MatrixFail string | MatrixOk matrix_result

text \<open>
  \<open>getTravelMatrix\<close> (routes/route.js): the cache first; on a miss one provider call,
  whose failure is thrown and whose success is stored at the time \<open>later\<close> the answer
  arrives. The result carries the number of provider calls made.
\<close>

definition getTravelMatrix ::
  "(geo list \<Rightarrow> string \<Rightarrow> int option \<Rightarrow> matrix_resp) \<Rightarrow> matrix_result matrix_store \<Rightarrow> int \<Rightarrow> int \<Rightarrow>
   geo list \<Rightarrow> string \<Rightarrow> int option \<Rightarrow> (string + matrix_result) \<times> matrix_result matrix_store \<times> nat" where
  "getTravelMatrix provider store now later points mode iso_t =
     (case getMatrixCache store now mode points iso_t of
        (Hit key v, store') \<Rightarrow> (Inr v, store', 0)
      | (Miss key, store') \<Rightarrow>
          (case provider points mode iso_t of
             MatrixFail err \<Rightarrow> (Inl err, store', 1)
           | MatrixOk res \<Rightarrow> (Inr res, setMatrixCache store' later key res, 1)))"

section \<open>Search along route (routes/sar.js)\<close>

text \<open>
  An item of a places search, with the fields \<open>searchAlongRoute\<close> reads. A field that
  is \<open>undefined\<close> is \<open>None\<close>; \<open>p_latitude\<close> and \<open>p_longitude\<close> stand for
  \<open>c.location?.latitude\<close> and \<open>c.location?.longitude\<close>.
\<close>

record place =
  p_id :: "string option"
  p_displayName :: "string option"
  p_name :: "string option"
  p_rating :: "rat option"
  p_userRatingCount :: "nat option"
  p_priceLevel :: "string option"
  p_latitude :: "rat option"
  p_longitude :: "rat option"
  p_lat :: "rat option"
  p_lon :: "rat option"




text \<open>
  An element of \<open>scored\<close>. The last field holds what the enrichment step adds
  (\<open>hours\<close>, \<open>formatted_address\<close>, \<open>website\<close>, each possibly \<open>null\<close>), \<open>None\<close> while the
  element is not enriched.
\<close>

record scored =
  place_id :: "string option"
  poi_name :: "string option"
  rating :: "rat option"
  user_ratings_total :: "nat option"
  price_level :: "string option"
  location :: geo
  detour_min :: int
  enriched :: "(string option \<times> string option \<times> string option) option"

text \<open>\<open>a ?? b\<close>, \<open>a || b\<close> on optional values, and the truth value of a number or string.\<close>

definition nullish :: "'a option \<Rightarrow> 'a option \<Rightarrow> 'a option" where
  "nullish a b = (case a of None \<Rightarrow> b | Some x \<Rightarrow> Some x)"

definition truthy_num :: "rat option \<Rightarrow> bool" where
  "truthy_num v = (case v of None \<Rightarrow> False | Some x \<Rightarrow> x \<noteq> 0)"

definition truthy_str :: "string option \<Rightarrow> bool" where
  "truthy_str v = (case v of None \<Rightarrow> False | Some x \<Rightarrow> x \<noteq> [])"

definition or_str :: "string option \<Rightarrow> string option \<Rightarrow> string option" where
  "or_str a b = (if truthy_str a then a else b)"




text \<open>
  Step 3. \<open>detour_of\<close> is the arithmetic on the three legs;
  \<open>score_one\<close> is the body of the loop for one candidate, \<open>None\<close> where the source
  says \<open>continue\<close> or does not push. The \<open>j\<close>-th call of the matrix provider, for the
  points \<open>[origin, cpt, dest]\<close>, answers \<open>matrix j [origin, cpt, dest]\<close>.
\<close>

definition detour_of :: "int \<Rightarrow> int \<Rightarrow> int \<Rightarrow> int" where
  "detour_of o_to_c c_to_d o_to_d =
     (let detour_s = (o_to_c + c_to_d) - o_to_d
      in max 0 (js_round (of_int detour_s / 60)))"

definition score_one ::
  "(nat \<Rightarrow> geo list \<Rightarrow> matrix_resp) \<Rightarrow> geo \<Rightarrow> geo \<Rightarrow> rat \<Rightarrow> nat \<Rightarrow> place \<Rightarrow> scored option" where
  "score_one matrix origin dest maxDetourMin j c =
     (let cpt_lat = nullish (p_latitude c) (p_lat c);
          cpt_lon = nullish (p_longitude c) (p_lon c)
      in if \<not> truthy_num cpt_lat \<or> \<not> truthy_num cpt_lon then None
         else
           (let cpt = \<lparr>lat = the cpt_lat, lon = the cpt_lon\<rparr>
            in case matrix j [origin, cpt, dest] of
                 MatrixFail err \<Rightarrow> None
               | MatrixOk m \<Rightarrow>
                   (case (dur_at (duration_s m) 0 1, dur_at (duration_s m) 1 2, dur_at (duration_s m) 0 2) of
                      (Fin o_to_c, Fin c_to_d, Fin o_to_d) \<Rightarrow>
                        (let d = detour_of o_to_c c_to_d o_to_d
                         in if of_int d \<le> maxDetourMin
                            then Some \<lparr>place_id = p_id c,
                                       poi_name = or_str (p_displayName c) (p_name c),
                                       rating = p_rating c,
                                       user_ratings_total = p_userRatingCount c,
                                       price_level = p_priceLevel c,
                                       location = cpt,
                                       detour_min = d,
                                       enriched = None\<rparr>
                            else None)
                    | _ \<Rightarrow> None)))"


text \<open>
  Step 4. The comparator of the sort, \<open>(a.detour_min - b.detour_min) || (score b - score a)\<close>
  with \<open>score x = (x.rating||0) * Math.log1p(x.user_ratings_total||0)\<close>, over the reals.
  \<open>Array.prototype.sort\<close> is stable: an element goes before the first element it does
  not come after.
\<close>

definition score :: "scored \<Rightarrow> real" where
  "score x = real_of_rat (case rating x of None \<Rightarrow> 0 | Some r \<Rightarrow> r)
               * ln (1 + real (case user_ratings_total x of None \<Rightarrow> 0 | Some c \<Rightarrow> c))"

definition sar_cmp :: "scored \<Rightarrow> scored \<Rightarrow> real" where
  "sar_cmp a b =
     (if detour_min a - detour_min b \<noteq> 0 then real_of_int (detour_min a - detour_min b)
      else score b - score a)"

fun insort_cmp :: "('a \<Rightarrow> 'a \<Rightarrow> real) \<Rightarrow> 'a \<Rightarrow> 'a list \<Rightarrow> 'a list" where
  "insort_cmp cmp x [] = [x]"
| "insort_cmp cmp x (y # ys) = (if cmp x y \<le> 0 then x # y # ys else y # insort_cmp cmp x ys)"

definition js_sort :: "('a \<Rightarrow> 'a \<Rightarrow> real) \<Rightarrow> 'a list \<Rightarrow> 'a list" where
  "js_sort cmp xs = foldr (insort_cmp cmp) xs []"




section \<open>Lemmas: rounding and decimal printing\<close>

lemma js_round_div60: "js_round (of_int d / 60) = (d + 30) div 60"
proof -
  have "(of_int d / 60 + 1 / 2 :: rat) = of_int (d + 30) / of_int 60" by (simp add: field_simps)
  then show ?thesis unfolding js_round_def by (simp only: floor_divide_of_int_eq)
qed

lemma digit_char_inj: "a < 10 \<Longrightarrow> b < 10 \<Longrightarrow> digit_char a = digit_char b \<Longrightarrow> a = b"
proof -
  assume a: "a < 10" and b: "b < 10" and e: "digit_char a = digit_char b"
  from e have "(of_char (char_of (48 + a)) :: nat) = of_char (char_of (48 + b))"
    by (simp add: digit_char_def)
  then have "(48 + a) mod 256 = (48 + b) mod 256" by (simp only: of_char_of)
  with a b show "a = b" by simp
qed

lemma digit_char_not_minus: "d < 10 \<Longrightarrow> digit_char d \<noteq> CHR ''-''"
proof
  assume d: "d < 10" and e: "digit_char d = CHR ''-''"
  from e have "(of_char (char_of (48 + d)) :: nat) = of_char CHR ''-''"
    by (simp add: digit_char_def)
  then have "(48 + d) mod 256 = 45" by (simp only: of_char_of) simp
  with d show False by simp
qed

lemma show_nat_length: "0 < length (show_nat n)"
  by (subst show_nat.simps) simp

lemma show_nat_inj: "show_nat a = show_nat b \<Longrightarrow> a = b"
proof (induction a arbitrary: b rule: show_nat.induct)
  case (1 n)
  show ?case
  proof (cases "n < 10")
    case True
    show ?thesis
    proof (cases "b < 10")
      case b: True
      from "1.prems" True b have "digit_char n = digit_char b"
        by (simp add: show_nat.simps [of n] show_nat.simps [of b])
      with True b show ?thesis by (rule digit_char_inj)
    next
      case b: False
      from "1.prems" True b have "[digit_char n] = show_nat (b div 10) @ [digit_char (b mod 10)]"
        by (simp add: show_nat.simps [of n] show_nat.simps [of b])
      then have "show_nat (b div 10) = []" by simp
      with show_nat_length [of "b div 10"] show ?thesis by simp
    qed
  next
    case False
    show ?thesis
    proof (cases "b < 10")
      case b: True
      from "1.prems" False b have "show_nat (n div 10) @ [digit_char (n mod 10)] = [digit_char b]"
        by (simp add: show_nat.simps [of n] show_nat.simps [of b])
      then have "show_nat (n div 10) = []" by simp
      with show_nat_length [of "n div 10"] show ?thesis by simp
    next
      case b: False
      from "1.prems" False b have
        "show_nat (n div 10) @ [digit_char (n mod 10)] = show_nat (b div 10) @ [digit_char (b mod 10)]"
        by (simp add: show_nat.simps [of n] show_nat.simps [of b])
      then have e: "show_nat (n div 10) = show_nat (b div 10)"
        and d: "digit_char (n mod 10) = digit_char (b mod 10)" by simp_all
      from "1.IH" [OF False e] have q: "n div 10 = b div 10" .
      have "n mod 10 = b mod 10" using d by (intro digit_char_inj) simp_all
      with q show ?thesis by (metis div_mult_mod_eq)
    qed
  qed
qed

lemma show_nat_hd: "hd (show_nat n) \<noteq> CHR ''-''"
proof (induction n rule: show_nat.induct)
  case (1 n)
  show ?case
  proof (cases "n < 10")
    case True
    then show ?thesis by (simp add: show_nat.simps [of n] digit_char_not_minus)
  next
    case False
    with "1.IH" show_nat_length [of "n div 10"] show ?thesis
      by (simp add: show_nat.simps [of n])
  qed
qed

lemma show_int_inj: "show_int a = show_int b \<Longrightarrow> a = b"
proof -
  assume e: "show_int a = show_int b"
  consider "a < 0" "b < 0" | "a < 0" "0 \<le> b" | "0 \<le> a" "b < 0" | "0 \<le> a" "0 \<le> b" by linarith
  then show ?thesis
  proof cases
    case 1
    with e have "show_nat (nat (- a)) = show_nat (nat (- b))" by (simp add: show_int_def)
    then have "nat (- a) = nat (- b)" by (rule show_nat_inj)
    with 1 show ?thesis by simp
  next
    case 2
    with e have "show_nat (nat b) = CHR ''-'' # show_nat (nat (- a))" by (simp add: show_int_def)
    then have "hd (show_nat (nat b)) = CHR ''-''" by simp
    with show_nat_hd show ?thesis by blast
  next
    case 3
    with e have "show_nat (nat a) = CHR ''-'' # show_nat (nat (- b))" by (simp add: show_int_def)
    then have "hd (show_nat (nat a)) = CHR ''-''" by simp
    with show_nat_hd show ?thesis by blast
  next
    case 4
    with e have "show_nat (nat a) = show_nat (nat b)" by (simp add: show_int_def)
    then have "nat a = nat b" by (rule show_nat_inj)
    with 4 show ?thesis by simp
  qed
qed

lemma matrix_key_bucket:
  "matrix_key mode points iso1 now1 = matrix_key mode points iso2 now2
     \<longleftrightarrow> timeBucket iso1 now1 = timeBucket iso2 now2"
  by (auto simp: matrix_key_def dest: show_int_inj)

section \<open>Lemmas: search along route\<close>




lemma score_one_Some:
  assumes "score_one matrix origin dest maxDetourMin j c = Some s"
  shows "\<exists>m a b d. truthy_num (nullish (p_latitude c) (p_lat c)) \<and>
           truthy_num (nullish (p_longitude c) (p_lon c)) \<and>
           matrix j [origin, \<lparr>lat = the (nullish (p_latitude c) (p_lat c)),
                               lon = the (nullish (p_longitude c) (p_lon c))\<rparr>, dest] = MatrixOk m \<and>
           dur_at (duration_s m) 0 1 = Fin a \<and> dur_at (duration_s m) 1 2 = Fin b \<and>
           dur_at (duration_s m) 0 2 = Fin d \<and>
           of_int (detour_of a b d) \<le> maxDetourMin \<and>
           place_id s = p_id c \<and> detour_min s = detour_of a b d"
proof -
  let ?cpt = "\<lparr>lat = the (nullish (p_latitude c) (p_lat c)),
                lon = the (nullish (p_longitude c) (p_lon c))\<rparr>"
  from assms have t: "truthy_num (nullish (p_latitude c) (p_lat c))"
      "truthy_num (nullish (p_longitude c) (p_lon c))"
    by (auto simp: score_one_def Let_def split: if_splits)
  with assms obtain m where m: "matrix j [origin, ?cpt, dest] = MatrixOk m"
    by (cases "matrix j [origin, ?cpt, dest]") (auto simp: score_one_def Let_def)
  from assms t m obtain a where a: "dur_at (duration_s m) 0 1 = Fin a"
    by (cases "dur_at (duration_s m) 0 1") (auto simp: score_one_def Let_def)
  from assms t m a obtain b where b: "dur_at (duration_s m) 1 2 = Fin b"
    by (cases "dur_at (duration_s m) 1 2") (auto simp: score_one_def Let_def)
  from assms t m a b obtain d where d: "dur_at (duration_s m) 0 2 = Fin d"
    by (cases "dur_at (duration_s m) 0 2") (auto simp: score_one_def Let_def)
  from assms t m a b d have "of_int (detour_of a b d) \<le> maxDetourMin \<and>
           place_id s = p_id c \<and> detour_min s = detour_of a b d"
    by (auto simp: score_one_def Let_def split: if_splits)
  with t m a b d show ?thesis by blast
qed




















subsection \<open>A worked search\<close>

text \<open>
  Two stops; every search answers the places a, b, a again and c; the matrix provider
  answers a detour of 100 s for a, none for b, and an unreachable leg for c.
\<close>

definition example_place :: "string \<Rightarrow> rat \<Rightarrow> place" where
  "example_place i r = \<lparr>p_id = Some i, p_displayName = None, p_name = Some i, p_rating = Some r,
     p_userRatingCount = Some 9, p_priceLevel = None, p_latitude = Some (1 / 2),
     p_longitude = Some (1 / 4), p_lat = None, p_lon = None\<rparr>"


definition legs_result :: "jsnum \<Rightarrow> jsnum \<Rightarrow> jsnum \<Rightarrow> matrix_result" where
  "legs_result o_to_c c_to_d o_to_d =
     \<lparr>mx_n = 3,
      duration_s = [[Fin 0, o_to_c, o_to_d], [o_to_c, Fin 0, c_to_d], [o_to_d, c_to_d, Fin 0]],
      distance_m = [[Fin 0, o_to_c, o_to_d], [o_to_c, Fin 0, c_to_d], [o_to_d, c_to_d, Fin 0]]\<rparr>"

definition legs :: "jsnum \<Rightarrow> jsnum \<Rightarrow> jsnum \<Rightarrow> matrix_resp" where
  "legs o_to_c c_to_d o_to_d = MatrixOk (legs_result o_to_c c_to_d o_to_d)"

definition example_matrix :: "nat \<Rightarrow> geo list \<Rightarrow> matrix_resp" where
  "example_matrix j pts =
     (if j = 0 then legs (Fin 300) (Fin 400) (Fin 600)
      else if j = 1 then legs (Fin 300) (Fin 300) (Fin 600)
      else legs (Fin 300) Infinity (Fin 600))"






definition example_scored :: "string \<Rightarrow> rat \<Rightarrow> int \<Rightarrow> scored" where
  "example_scored i r d = \<lparr>place_id = Some i, poi_name = Some i, rating = Some r,
     user_ratings_total = Some 9, price_level = None, location = \<lparr>lat = 1 / 2, lon = 1 / 4\<rparr>,
     detour_min = d, enriched = None\<rparr>"





lemma example_tie:
  "js_sort sar_cmp [example_scored ''b'' 3 2, example_scored ''a'' 4 2, example_scored ''c'' 3 2]
     = [example_scored ''a'' 4 2, example_scored ''b'' 3 2, example_scored ''c'' 3 2]"
  by (simp add: js_sort_def sar_cmp_def example_scored_def score_def)

section \<open>Day planner: origin and destination (routes/planner.js)\<close>












section \<open>Route API (routes/route.js)\<close>

subsection \<open>Avoid terms, cache key\<close>

definition AVOID_MAP :: "string \<Rightarrow> string option" where
  "AVOID_MAP term =
     (if term = ''tolls'' then Some ''toll''
      else if term = ''ferries'' then Some ''ferry''
      else if term = ''highways'' then Some ''motorway''
      else None)"

definition ORS_AVOID_MAP :: "string \<Rightarrow> string option" where
  "ORS_AVOID_MAP term =
     (if term = ''tolls'' then Some ''tollways''
      else if term = ''ferries'' then Some ''ferries''
      else if term = ''highways'' then Some ''highways''
      else None)"

text \<open>
  \<open>.filter((val, idx, arr) => arr.indexOf(val) === idx)\<close> keeps the first occurrence of
  every value, in order.
\<close>

definition dedupe :: "'a list \<Rightarrow> 'a list" where
  "dedupe xs = rev (remdups (rev xs))"

definition buildExcludeParam :: "string list \<Rightarrow> string" where
  "buildExcludeParam avoid =
     (if avoid = [] then []
      else join '','' (dedupe (List.map_filter AVOID_MAP avoid)))"

definition keyFor :: "geo list \<Rightarrow> string \<Rightarrow> string" where
  "keyFor stops exclude =
     (let s = join ''->'' (map (\<lambda>p. toFixed 5 (lat p) @ '','' @ toFixed 5 (lon p)) stops);
          suffix = (if exclude \<noteq> [] then '':ex='' @ exclude else [])
      in ''r:'' @ s @ suffix)"

subsection \<open>Requests, answers of the providers, responses\<close>

text \<open>
  The request body after \<open>routeSchema\<close>: \<open>req_avoid\<close> is \<open>constraints?.avoid || []\<close>, a list of
  terms, and \<open>req_testForceRelax\<close> the truth value of \<open>constraints?._testForceRelax\<close>.
\<close>

record route_request =
  req_stops :: "geo list"
  req_mode :: "string option"
  req_avoid :: "string list"
  req_testForceRelax :: bool

definition valid_request :: "route_request \<Rightarrow> bool" where
  "valid_request req \<longleftrightarrow>
     2 \<le> length (req_stops req) \<and> length (req_stops req) \<le> 5 \<and>
     list_all (\<lambda>p. - 90 \<le> lat p \<and> lat p \<le> 90 \<and> - 180 \<le> lon p \<and> lon p \<le> 180) (req_stops req) \<and>
     (req_mode req = None \<or> req_mode req = Some ''drive'')"

text \<open>The response payload; a geometry is kept as its GeoJSON text.\<close>

record payload =
  pl_distance_m :: int
  pl_duration_s :: int
  pl_geometry :: "string option"
  route_retry_relaxed :: bool

text \<open>
  What \<open>callOsrm\<close> returns: \<open>{ok: true, json}\<close>, \<open>{ok: false, status, body}\<close> for a
  response that is not 2xx, or \<open>{ok: false, error}\<close> with \<open>error = 'timeout'\<close> for an
  aborted request and the text of the exception otherwise.
\<close>

record osrm_route =
  r_distance :: "rat option"
  r_duration :: "rat option"
  r_geometry :: "string option"

record osrm_json =
  j_code :: "string option"
  j_routes :: "osrm_route list"
  j_message :: "string option"

datatype osrm_result = OsrmJson osrm_json | OsrmStatus nat string | OsrmError string

text \<open>
  What the request of \<open>callORS\<close> meets: a response that is not 2xx, a GeoJSON body
  (its first feature, if any), or an exception.
\<close>

record ors_feature =
  f_geometry :: "string option"
  f_distance :: "rat option"
  f_duration :: "rat option"

datatype ors_fetch = OrsStatus nat string | OrsGeo "ors_feature option" | OrsException string

datatype ors_result = OrsFailed | OrsPayload payload

definition round_or0 :: "rat option \<Rightarrow> int" where
  "round_or0 v = js_round (case v of None \<Rightarrow> 0 | Some x \<Rightarrow> x)"

definition callORS :: "ors_fetch \<Rightarrow> ors_result" where
  "callORS fetched =
     (case fetched of
        OrsStatus st body \<Rightarrow> OrsFailed
      | OrsException e \<Rightarrow> OrsFailed
      | OrsGeo None \<Rightarrow> OrsFailed
      | OrsGeo (Some feat) \<Rightarrow>
          (case f_geometry feat of
             None \<Rightarrow> OrsFailed
           | Some g \<Rightarrow>
               OrsPayload \<lparr>pl_distance_m = round_or0 (f_distance feat),
                           pl_duration_s = round_or0 (f_duration feat),
                           pl_geometry = Some g,
                           route_retry_relaxed = False\<rparr>))"

text \<open>
  The upstream calls a request makes, in order: the secondary provider with the stops
  and the avoid features, the primary provider with the two end points and the exclude
  parameter of the URL (empty: the URL carries none).
\<close>

datatype upstream_call = CallORS "geo list" "string list" | CallOSRM geo geo string


text \<open>
  What the network would answer to the calls of one request: the secondary provider, the
  first and the second call of the primary provider.
\<close>

record net =
  ors_answer :: ors_fetch
  osrm_first :: osrm_result
  osrm_second :: osrm_result

datatype fail_code = provider_timeout | provider_error

datatype route_response =
    BadRequest
  | Unavailable
  | BadGateway fail_code string
  | Ok200 payload

subsection \<open>The LRU cache with a time to live\<close>

text \<open>
  The package \<open>lru-cache\<close> as the handler uses it, \<open>new LRUCache({max, ttl})\<close>: the entries
  in order of use, most recent first, each with the time it was set. \<open>get\<close> of an entry
  older than \<open>ttl\<close> deletes it and returns \<open>undefined\<close>; \<open>set\<close> puts the entry first and
  drops the least recently used entries beyond \<open>max\<close>.
\<close>

record lru =
  lru_max :: nat
  lru_ttl :: int
  lru_entries :: "(string \<times> int \<times> payload) list"

definition cache_get :: "int \<Rightarrow> lru \<Rightarrow> string \<Rightarrow> payload option \<times> lru" where
  "cache_get now c k =
     (case map_of (lru_entries c) k of
        None \<Rightarrow> (None, c)
      | Some (t, v) \<Rightarrow>
          if now - t > lru_ttl c
          then (None, c\<lparr>lru_entries := filter (\<lambda>e. fst e \<noteq> k) (lru_entries c)\<rparr>)
          else (Some v, c\<lparr>lru_entries := (k, t, v) # filter (\<lambda>e. fst e \<noteq> k) (lru_entries c)\<rparr>))"

definition cache_set :: "int \<Rightarrow> lru \<Rightarrow> string \<Rightarrow> payload \<Rightarrow> lru" where
  "cache_set now c k v =
     c\<lparr>lru_entries := take (lru_max c) ((k, now, v) # filter (\<lambda>e. fst e \<noteq> k) (lru_entries c))\<rparr>"

subsection \<open>Configuration and state\<close>

record config =
  ORS_API_KEY :: string
  TEST_HOOKS :: bool
  CACHE_MAX :: nat
  CACHE_TTL_MS :: int

record server =
  breakerUntil :: int
  cache :: lru

definition init_server :: "config \<Rightarrow> server" where
  "init_server cfg =
     \<lparr>breakerUntil = 0,
      cache = \<lparr>lru_max = CACHE_MAX cfg, lru_ttl = CACHE_TTL_MS cfg, lru_entries = []\<rparr>\<rparr>"

subsection \<open>The handler of POST /api/route\<close>

text \<open>Reading the result of \<open>callOsrm\<close>: \<open>first.ok\<close>, \<open>first.json?.code\<close>,
  \<open>first.json?.routes\<close>, \<open>first.error\<close>, \<open>first.status\<close>, \<open>first.json?.message\<close>.\<close>

definition osrm_ok :: "osrm_result \<Rightarrow> bool" where
  "osrm_ok r = (case r of OsrmJson j \<Rightarrow> True | _ \<Rightarrow> False)"

definition osrm_code :: "osrm_result \<Rightarrow> string option" where
  "osrm_code r = (case r of OsrmJson j \<Rightarrow> j_code j | _ \<Rightarrow> None)"

definition osrm_routes :: "osrm_result \<Rightarrow> osrm_route list" where
  "osrm_routes r = (case r of OsrmJson j \<Rightarrow> j_routes j | _ \<Rightarrow> [])"

definition osrm_error :: "osrm_result \<Rightarrow> string option" where
  "osrm_error r = (case r of OsrmError e \<Rightarrow> Some e | _ \<Rightarrow> None)"

definition osrm_status :: "osrm_result \<Rightarrow> nat option" where
  "osrm_status r = (case r of OsrmStatus st body \<Rightarrow> Some st | _ \<Rightarrow> None)"

definition osrm_message :: "osrm_result \<Rightarrow> string option" where
  "osrm_message r = (case r of OsrmJson j \<Rightarrow> j_message j | _ \<Rightarrow> None)"

text \<open>\<open>!first.ok || (first.ok && first.json?.code !== 'Ok')\<close>\<close>

definition retry_needed :: "osrm_result \<Rightarrow> bool" where
  "retry_needed first \<longleftrightarrow> \<not> osrm_ok first \<or> (osrm_ok first \<and> osrm_code first \<noteq> Some ''Ok'')"

text \<open>\<open>second.ok && second.json?.code === 'Ok' && second.json?.routes?.length\<close>\<close>

definition route_found :: "osrm_result \<Rightarrow> bool" where
  "route_found r \<longleftrightarrow> osrm_ok r \<and> osrm_code r = Some ''Ok'' \<and> osrm_routes r \<noteq> []"

text \<open>
  The secondary provider: tried when an avoid term was given and a key is configured. The
  result is the payload if it succeeded, the provider label, and the call made.
\<close>

definition ors_features :: "string list \<Rightarrow> string list" where
  "ors_features avoid = dedupe (List.map_filter ORS_AVOID_MAP avoid)"

definition ors_stage :: "config \<Rightarrow> net \<Rightarrow> route_request \<Rightarrow> payload option \<times> string \<times> upstream_call list" where
  "ors_stage cfg nw req =
     (let wantsAvoid = req_avoid req \<noteq> []
      in if wantsAvoid \<and> ORS_API_KEY cfg \<noteq> [] then
           (case callORS (ors_answer nw) of
              OrsPayload p \<Rightarrow> (Some p, ''ors'', [CallORS (req_stops req) (ors_features (req_avoid req))])
            | OrsFailed \<Rightarrow> (None, ''osrm_fallback'', [CallORS (req_stops req) (ors_features (req_avoid req))]))
         else (None, ''osrm'', []))"

text \<open>The first attempt as the handler goes on with it, after the test hook.\<close>

definition first_attempt :: "config \<Rightarrow> net \<Rightarrow> route_request \<Rightarrow> string \<Rightarrow> osrm_result" where
  "first_attempt cfg nw req exclude =
     (if TEST_HOOKS cfg \<and> exclude \<noteq> [] \<and> req_testForceRelax req then OsrmError ''test_forced''
      else osrm_first nw)"

text \<open>
  The two attempts at the primary provider: the final value of \<open>first\<close>, of \<open>relaxed\<close> and
  of \<open>provider\<close>, and the calls made.
\<close>

definition osrm_attempts ::
  "config \<Rightarrow> net \<Rightarrow> route_request \<Rightarrow> string \<Rightarrow> string \<Rightarrow> osrm_result \<times> bool \<times> string \<times> upstream_call list" where
  "osrm_attempts cfg nw req exclude provider =
     (let a = hd (req_stops req);
          b = last (req_stops req);
          first = first_attempt cfg nw req exclude
      in if retry_needed first then
           (let second = osrm_second nw
            in if route_found second
               then (second, exclude \<noteq> [],
                     (if provider = ''osrm_fallback'' then ''osrm_fallback_relaxed'' else ''osrm_relaxed''),
                     [CallOSRM a b exclude, CallOSRM a b []])
               else (first, False, provider, [CallOSRM a b exclude, CallOSRM a b []]))
         else (first, False, provider, [CallOSRM a b exclude]))"

text \<open>The failure branch: the new value of \<open>breakerUntil\<close>, the code and the message.\<close>

definition breaker_after :: "osrm_result \<Rightarrow> int \<Rightarrow> int \<Rightarrow> int" where
  "breaker_after first later old =
     (if (case osrm_status first of None \<Rightarrow> False | Some st \<Rightarrow> st \<noteq> 0 \<and> st \<ge> 500) then later + 60000
      else if truthy_str (osrm_error first) then later + 30000
      else old)"

definition failure_code :: "osrm_result \<Rightarrow> fail_code" where
  "failure_code first = (if osrm_error first = Some ''timeout'' then provider_timeout else provider_error)"

definition failure_message :: "osrm_result \<Rightarrow> string" where
  "failure_message first =
     the (or_str (or_str (osrm_error first) (osrm_message first)) (Some ''Route computation failed''))"

definition osrm_payload :: "osrm_route \<Rightarrow> bool \<Rightarrow> payload" where
  "osrm_payload route relaxed =
     \<lparr>pl_distance_m = round_or0 (r_distance route),
      pl_duration_s = round_or0 (r_duration route),
      pl_geometry = r_geometry route,
      route_retry_relaxed = relaxed\<rparr>"

text \<open>
  The handler. \<open>now\<close> is the time at which the request is looked up in the cache and
  checked against the breaker, \<open>later\<close> the time after the upstream calls, at which the
  breaker is set or the payload is stored. The result is the response, the new state and
  the upstream calls in order.
\<close>

definition route_handler ::
  "config \<Rightarrow> net \<Rightarrow> int \<Rightarrow> int \<Rightarrow> server \<Rightarrow> route_request \<Rightarrow> route_response \<times> server \<times> upstream_call list" where
  "route_handler cfg nw now later srv req =
     (if \<not> valid_request req then (BadRequest, srv, [])
      else
        (let exclude = buildExcludeParam (req_avoid req);
             k = keyFor (req_stops req) exclude
         in case cache_get now (cache srv) k of
              (Some hit, c) \<Rightarrow> (Ok200 hit, srv\<lparr>cache := c\<rparr>, [])
            | (None, c) \<Rightarrow>
                if now < breakerUntil srv then (Unavailable, srv\<lparr>cache := c\<rparr>, [])
                else
                  (case ors_stage cfg nw req of
                     (Some p, provider, calls) \<Rightarrow>
                       (Ok200 p, srv\<lparr>cache := cache_set later c k p\<rparr>, calls)
                   | (None, provider, calls) \<Rightarrow>
                       (case osrm_attempts cfg nw req exclude provider of
                          (first, relaxed, provider', calls') \<Rightarrow>
                            if \<not> osrm_ok first \<or> osrm_code first \<noteq> Some ''Ok'' \<or> osrm_routes first = []
                            then (BadGateway (failure_code first) (failure_message first),
                                  srv\<lparr>cache := c, breakerUntil := breaker_after first later (breakerUntil srv)\<rparr>,
                                  calls @ calls')
                            else
                              (let p = osrm_payload (hd (osrm_routes first)) relaxed
                               in (Ok200 p, srv\<lparr>cache := cache_set later c k p\<rparr>, calls @ calls'))))))"

text \<open>The states the server can be in: the initial one, and any state a request leaves.\<close>

inductive reachable :: "config \<Rightarrow> server \<Rightarrow> bool" for cfg :: config where
  reachable_init: "reachable cfg (init_server cfg)"
| reachable_step:
    "reachable cfg srv \<Longrightarrow> route_handler cfg nw now later srv req = (resp, srv', calls)
       \<Longrightarrow> reachable cfg srv'"

code_pred reachable .

section \<open>Lemmas: the route handler\<close>

abbreviation (input) req_exclude :: "route_request \<Rightarrow> string" where
  "req_exclude req \<equiv> buildExcludeParam (req_avoid req)"

abbreviation (input) req_key :: "route_request \<Rightarrow> string" where
  "req_key req \<equiv> keyFor (req_stops req) (buildExcludeParam (req_avoid req))"

lemma handler_invalid:
  "\<not> valid_request req \<Longrightarrow> route_handler cfg nw now later srv req = (BadRequest, srv, [])"
  by (simp add: route_handler_def)

lemma handler_hit:
  "valid_request req \<Longrightarrow> cache_get now (cache srv) (req_key req) = (Some hit, c) \<Longrightarrow>
     route_handler cfg nw now later srv req = (Ok200 hit, srv\<lparr>cache := c\<rparr>, [])"
  by (simp add: route_handler_def Let_def)

lemma handler_open:
  "valid_request req \<Longrightarrow> cache_get now (cache srv) (req_key req) = (None, c) \<Longrightarrow>
     now < breakerUntil srv \<Longrightarrow>
     route_handler cfg nw now later srv req = (Unavailable, srv\<lparr>cache := c\<rparr>, [])"
  by (simp add: route_handler_def Let_def)

lemma handler_ors:
  "valid_request req \<Longrightarrow> cache_get now (cache srv) (req_key req) = (None, c) \<Longrightarrow>
     \<not> now < breakerUntil srv \<Longrightarrow> ors_stage cfg nw req = (Some p, provider, calls) \<Longrightarrow>
     route_handler cfg nw now later srv req
       = (Ok200 p, srv\<lparr>cache := cache_set later c (req_key req) p\<rparr>, calls)"
  by (simp add: route_handler_def Let_def)

lemma handler_osrm_fail:
  "valid_request req \<Longrightarrow> cache_get now (cache srv) (req_key req) = (None, c) \<Longrightarrow>
     \<not> now < breakerUntil srv \<Longrightarrow> ors_stage cfg nw req = (None, provider, calls) \<Longrightarrow>
     osrm_attempts cfg nw req (req_exclude req) provider = (first, relaxed, provider', calls') \<Longrightarrow>
     \<not> route_found first \<Longrightarrow>
     route_handler cfg nw now later srv req
       = (BadGateway (failure_code first) (failure_message first),
          srv\<lparr>cache := c, breakerUntil := breaker_after first later (breakerUntil srv)\<rparr>,
          calls @ calls')"
  by (simp add: route_handler_def Let_def route_found_def)

lemma handler_osrm_ok:
  "valid_request req \<Longrightarrow> cache_get now (cache srv) (req_key req) = (None, c) \<Longrightarrow>
     \<not> now < breakerUntil srv \<Longrightarrow> ors_stage cfg nw req = (None, provider, calls) \<Longrightarrow>
     osrm_attempts cfg nw req (req_exclude req) provider = (first, relaxed, provider', calls') \<Longrightarrow>
     route_found first \<Longrightarrow>
     route_handler cfg nw now later srv req
       = (Ok200 (osrm_payload (hd (osrm_routes first)) relaxed),
          srv\<lparr>cache := cache_set later c (req_key req) (osrm_payload (hd (osrm_routes first)) relaxed)\<rparr>,
          calls @ calls')"
  by (simp add: route_handler_def Let_def route_found_def)

text \<open>The outcomes of the two attempts.\<close>

lemma osrm_attempts_cases:
  obtains
    (no_retry) "\<not> retry_needed (first_attempt cfg nw req exclude)"
      "osrm_attempts cfg nw req exclude provider
         = (first_attempt cfg nw req exclude, False, provider,
            [CallOSRM (hd (req_stops req)) (last (req_stops req)) exclude])"
  | (retry_ok) "retry_needed (first_attempt cfg nw req exclude)" "route_found (osrm_second nw)"
      "osrm_attempts cfg nw req exclude provider
         = (osrm_second nw, exclude \<noteq> [],
            (if provider = ''osrm_fallback'' then ''osrm_fallback_relaxed'' else ''osrm_relaxed''),
            [CallOSRM (hd (req_stops req)) (last (req_stops req)) exclude,
             CallOSRM (hd (req_stops req)) (last (req_stops req)) []])"
  | (retry_fail) "retry_needed (first_attempt cfg nw req exclude)" "\<not> route_found (osrm_second nw)"
      "osrm_attempts cfg nw req exclude provider
         = (first_attempt cfg nw req exclude, False, provider,
            [CallOSRM (hd (req_stops req)) (last (req_stops req)) exclude,
             CallOSRM (hd (req_stops req)) (last (req_stops req)) []])"
  by (cases "retry_needed (first_attempt cfg nw req exclude)"; cases "route_found (osrm_second nw)")
     (simp_all add: osrm_attempts_def Let_def)


lemma ors_stage_cases:
  obtains
    (direct) "req_avoid req = [] \<or> ORS_API_KEY cfg = []" "ors_stage cfg nw req = (None, ''osrm'', [])"
  | (ors_ok) p where "req_avoid req \<noteq> []" "ORS_API_KEY cfg \<noteq> []" "callORS (ors_answer nw) = OrsPayload p"
      "ors_stage cfg nw req = (Some p, ''ors'', [CallORS (req_stops req) (ors_features (req_avoid req))])"
  | (ors_failed) "req_avoid req \<noteq> []" "ORS_API_KEY cfg \<noteq> []" "callORS (ors_answer nw) = OrsFailed"
      "ors_stage cfg nw req = (None, ''osrm_fallback'', [CallORS (req_stops req) (ors_features (req_avoid req))])"
  by (cases "req_avoid req = [] \<or> ORS_API_KEY cfg = []"; cases "callORS (ors_answer nw)")
     (auto simp: ors_stage_def Let_def)








lemma same_result: "f = (a, b, c) \<Longrightarrow> f = (a', b', c') \<Longrightarrow> a' = a \<and> b' = b \<and> c' = c"
  by simp








lemma handler_cases:
  obtains
    (invalid) "\<not> valid_request req"
      "route_handler cfg nw now later srv req = (BadRequest, srv, [])"
  | (hit) hit c where "valid_request req"
      "cache_get now (cache srv) (keyFor (req_stops req) (buildExcludeParam (req_avoid req))) = (Some hit, c)"
      "route_handler cfg nw now later srv req = (Ok200 hit, srv\<lparr>cache := c\<rparr>, [])"
  | (opened) c where "valid_request req"
      "cache_get now (cache srv) (keyFor (req_stops req) (buildExcludeParam (req_avoid req))) = (None, c)"
      "now < breakerUntil srv"
      "route_handler cfg nw now later srv req = (Unavailable, srv\<lparr>cache := c\<rparr>, [])"
  | (ors) c p provider calls0 where "valid_request req"
      "cache_get now (cache srv) (keyFor (req_stops req) (buildExcludeParam (req_avoid req))) = (None, c)"
      "ors_stage cfg nw req = (Some p, provider, calls0)"
      "route_handler cfg nw now later srv req
         = (Ok200 p, srv\<lparr>cache := cache_set later c
                (keyFor (req_stops req) (buildExcludeParam (req_avoid req))) p\<rparr>, calls0)"
  | (osrm_fail) c provider calls0 first relaxed provider' calls' where "valid_request req"
      "cache_get now (cache srv) (keyFor (req_stops req) (buildExcludeParam (req_avoid req))) = (None, c)"
      "ors_stage cfg nw req = (None, provider, calls0)"
      "osrm_attempts cfg nw req (buildExcludeParam (req_avoid req)) provider
         = (first, relaxed, provider', calls')"
      "route_handler cfg nw now later srv req
         = (BadGateway (failure_code first) (failure_message first),
            srv\<lparr>cache := c, breakerUntil := breaker_after first later (breakerUntil srv)\<rparr>,
            calls0 @ calls')"
  | (osrm_ok) c provider calls0 first relaxed provider' calls' where "valid_request req"
      "cache_get now (cache srv) (keyFor (req_stops req) (buildExcludeParam (req_avoid req))) = (None, c)"
      "ors_stage cfg nw req = (None, provider, calls0)"
      "osrm_attempts cfg nw req (buildExcludeParam (req_avoid req)) provider
         = (first, relaxed, provider', calls')"
      "route_found first"
      "route_handler cfg nw now later srv req
         = (Ok200 (osrm_payload (hd (osrm_routes first)) relaxed),
            srv\<lparr>cache := cache_set later c
                (keyFor (req_stops req) (buildExcludeParam (req_avoid req)))
                (osrm_payload (hd (osrm_routes first)) relaxed)\<rparr>,
            calls0 @ calls')"
proof (cases "valid_request req")
  case False
  with handler_invalid [OF False] invalid show ?thesis by blast
next
  case valid: True
  let ?ex = "buildExcludeParam (req_avoid req)"
  obtain h c where g: "cache_get now (cache srv) (keyFor (req_stops req) ?ex) = (h, c)"
    by (cases "cache_get now (cache srv) (keyFor (req_stops req) ?ex)")
  show ?thesis
  proof (cases h)
    case (Some x)
    with g have g': "cache_get now (cache srv) (keyFor (req_stops req) ?ex) = (Some x, c)" by simp
    from hit [OF valid g' handler_hit [OF valid g']] show ?thesis .
  next
    case None
    with g have miss: "cache_get now (cache srv) (keyFor (req_stops req) ?ex) = (None, c)" by simp
    show ?thesis
    proof (cases "now < breakerUntil srv")
      case True
      from opened [OF valid miss True handler_open [OF valid miss True]] show ?thesis .
    next
      case closed: False
      show ?thesis
      proof (cases "ors_stage cfg nw req")
        case (fields po provider calls0)
        show ?thesis
        proof (cases po)
          case (Some q)
          with fields have o: "ors_stage cfg nw req = (Some q, provider, calls0)" by simp
          from ors [OF valid miss o handler_ors [OF valid miss closed o]] show ?thesis .
        next
          case None
          with fields have o: "ors_stage cfg nw req = (None, provider, calls0)" by simp
          obtain first relaxed provider' calls' where
            a: "osrm_attempts cfg nw req ?ex provider = (first, relaxed, provider', calls')"
            by (cases "osrm_attempts cfg nw req ?ex provider")
          show ?thesis
          proof (cases "route_found first")
            case True
            from osrm_ok [OF valid miss o a True handler_osrm_ok [OF valid miss closed o a True]]
            show ?thesis .
          next
            case False
            from osrm_fail [OF valid miss o a handler_osrm_fail [OF valid miss closed o a False]]
            show ?thesis .
          qed
        qed
      qed
    qed
  qed
qed

lemma digit_char_not_colon: "d < 10 \<Longrightarrow> digit_char d \<noteq> CHR '':''"
proof
  assume d: "d < 10" and e: "digit_char d = CHR '':''"
  from e have "(of_char (char_of (48 + d)) :: nat) = of_char CHR '':''"
    by (simp add: digit_char_def)
  then have "(48 + d) mod 256 = 58" by (simp only: of_char_of) simp
  with d show False by simp
qed

lemma show_nat_no_colon: "CHR '':'' \<notin> set (show_nat n)"
proof (induction n rule: show_nat.induct)
  case (1 n)
  show ?case
  proof (cases "n < 10")
    case True
    with digit_char_not_colon [of n] show ?thesis by (auto simp: show_nat.simps [of n])
  next
    case False
    with "1.IH" digit_char_not_colon [of "n mod 10"] show ?thesis
      by (auto simp: show_nat.simps [of n])
  qed
qed

lemma toFixed_no_colon: "CHR '':'' \<notin> set (toFixed f x)"
proof -
  let ?n = "nat \<lfloor>\<bar>x\<bar> * 10 ^ f + 1 / 2\<rfloor>"
  let ?m = "replicate (Suc f - length (show_nat ?n)) (CHR ''0'') @ show_nat ?n"
  have m: "CHR '':'' \<notin> set ?m" using show_nat_no_colon [of ?n] by auto
  then have "CHR '':'' \<notin> set (take (length ?m - f) ?m)" "CHR '':'' \<notin> set (drop (length ?m - f) ?m)"
    by (meson in_set_takeD, meson in_set_dropD)
  then show ?thesis by (simp add: toFixed_def Let_def)
qed

lemma join_no_char:
  "c \<notin> set sep \<Longrightarrow> \<forall>x\<in>set xs. c \<notin> set x \<Longrightarrow> c \<notin> set (join sep xs)"
  by (induction sep xs rule: join.induct) auto

lemma key_colon: "CHR '':'' \<in> set (drop 2 (keyFor stops exclude)) \<longleftrightarrow> exclude \<noteq> []"
proof -
  let ?s = "join ''->'' (map (\<lambda>p. toFixed 5 (lat p) @ '','' @ toFixed 5 (lon p)) stops)"
  have "CHR '':'' \<notin> set ?s"
    by (rule join_no_char) (auto simp: toFixed_no_colon)
  then show ?thesis by (simp add: keyFor_def Let_def)
qed

text \<open>
  The invariant of the cache: a payload marked as relaxed is stored under a key that
  carries an exclude suffix.
\<close>

definition relaxed_keyed :: "string \<Rightarrow> payload \<Rightarrow> bool" where
  "relaxed_keyed k p \<longleftrightarrow> (route_retry_relaxed p \<longrightarrow> CHR '':'' \<in> set (drop 2 k))"

definition cache_inv :: "lru \<Rightarrow> bool" where
  "cache_inv c \<longleftrightarrow> list_all (\<lambda>e. relaxed_keyed (fst e) (snd (snd e))) (lru_entries c)"

lemma cache_get_inv:
  assumes "cache_inv c" and "cache_get now c k = (h, c')"
  shows "cache_inv c' \<and> (\<forall>p. h = Some p \<longrightarrow> relaxed_keyed k p)"
proof (cases "map_of (lru_entries c) k")
  case None
  with assms show ?thesis by (simp add: cache_get_def)
next
  case (Some tv)
  obtain t v where tv: "tv = (t, v)" by (cases tv)
  from Some tv have "(k, t, v) \<in> set (lru_entries c)" by (simp add: map_of_SomeD)
  with assms(1) have kv: "relaxed_keyed k v" by (auto simp: cache_inv_def list_all_iff)
  from assms(1) have f: "list_all (\<lambda>e. relaxed_keyed (fst e) (snd (snd e)))
      (filter (\<lambda>e. fst e \<noteq> k) (lru_entries c))" by (auto simp: cache_inv_def list_all_iff)
  show ?thesis
  proof (cases "now - t > lru_ttl c")
    case True
    with assms(2) Some tv f show ?thesis by (auto simp: cache_get_def cache_inv_def)
  next
    case False
    with assms(2) Some tv f kv show ?thesis by (auto simp: cache_get_def cache_inv_def)
  qed
qed

lemma cache_set_inv:
  assumes "cache_inv c" and "relaxed_keyed k p"
  shows "cache_inv (cache_set now c k p)"
proof -
  from assms have "list_all (\<lambda>e. relaxed_keyed (fst e) (snd (snd e)))
      ((k, now, p) # filter (\<lambda>e. fst e \<noteq> k) (lru_entries c))"
    by (auto simp: cache_inv_def list_all_iff)
  then have "list_all (\<lambda>e. relaxed_keyed (fst e) (snd (snd e)))
      (take (lru_max c) ((k, now, p) # filter (\<lambda>e. fst e \<noteq> k) (lru_entries c)))"
    unfolding list_all_iff by (meson in_set_takeD)
  then show ?thesis by (simp add: cache_inv_def cache_set_def)
qed

lemma ors_payload_not_relaxed: "callORS fetched = OrsPayload p \<Longrightarrow> \<not> route_retry_relaxed p"
  by (auto simp: callORS_def split: ors_fetch.splits option.splits)

lemma ors_stage_payload: "ors_stage cfg nw req = (Some p, provider, calls0) \<Longrightarrow> \<not> route_retry_relaxed p"
  by (rule ors_stage_cases [where cfg = cfg and nw = nw and req = req])
     (auto dest: ors_payload_not_relaxed)

lemma osrm_attempts_relaxed:
  assumes "osrm_attempts cfg nw req exclude provider = (first, relaxed, provider', calls')"
    and "relaxed"
  shows "exclude \<noteq> [] \<and>
         calls' = [CallOSRM (hd (req_stops req)) (last (req_stops req)) exclude,
                   CallOSRM (hd (req_stops req)) (last (req_stops req)) []]"
  by (rule osrm_attempts_cases [where cfg = cfg and nw = nw and req = req and exclude = exclude
        and provider = provider]) (use assms in auto)

lemma handler_inv:
  assumes "cache_inv (cache srv)" and "route_handler cfg nw now later srv req = (resp, srv', calls)"
  shows "cache_inv (cache srv')"
proof (rule handler_cases [where cfg = cfg and nw = nw and now = now and later = later
      and srv = srv and req = req], goal_cases)
  case 1
  from same_result [OF 1(2) assms(2)] assms(1) show ?case by simp
next
  case (2 hit c)
  from cache_get_inv [OF assms(1) 2(2)] same_result [OF 2(3) assms(2)] show ?case by simp
next
  case (3 c)
  from cache_get_inv [OF assms(1) 3(2)] same_result [OF 3(4) assms(2)] show ?case by simp
next
  case (4 c p provider calls0)
  from cache_get_inv [OF assms(1) 4(2)] have "cache_inv c" by simp
  moreover from ors_stage_payload [OF 4(3)] have "relaxed_keyed (keyFor (req_stops req)
      (buildExcludeParam (req_avoid req))) p" by (simp add: relaxed_keyed_def)
  ultimately have "cache_inv (cache_set later c (keyFor (req_stops req)
      (buildExcludeParam (req_avoid req))) p)" by (rule cache_set_inv)
  with same_result [OF 4(4) assms(2)] show ?case by simp
next
  case (5 c provider calls0 first relaxed provider' calls')
  from cache_get_inv [OF assms(1) 5(2)] same_result [OF 5(5) assms(2)] show ?case by simp
next
  case (6 c provider calls0 first relaxed provider' calls')
  from cache_get_inv [OF assms(1) 6(2)] have "cache_inv c" by simp
  moreover have "relaxed_keyed (keyFor (req_stops req) (buildExcludeParam (req_avoid req)))
      (osrm_payload (hd (osrm_routes first)) relaxed)"
    using osrm_attempts_relaxed [OF 6(4)]
    by (auto simp: relaxed_keyed_def osrm_payload_def key_colon)
  ultimately have "cache_inv (cache_set later c (keyFor (req_stops req)
      (buildExcludeParam (req_avoid req))) (osrm_payload (hd (osrm_routes first)) relaxed))"
    by (rule cache_set_inv)
  with same_result [OF 6(6) assms(2)] show ?case by simp
qed

lemma reachable_inv: "reachable cfg srv \<Longrightarrow> cache_inv (cache srv)"
proof (induction rule: reachable.induct)
  case reachable_init
  show ?case by (simp add: init_server_def cache_inv_def)
next
  case (reachable_step srv nw now later req resp srv' calls)
  then show ?case using handler_inv by blast
qed

lemma exclude_of_no_avoid: "buildExcludeParam [] = []"
  by (simp add: buildExcludeParam_def)

subsection \<open>Worked requests\<close>

text \<open>
  A server without a key for the secondary provider, two stops, and answers of the
  primary provider: a route, no route, a success code with no routes, a 503.
\<close>

definition example_cfg :: config where
  "example_cfg = \<lparr>ORS_API_KEY = [], TEST_HOOKS = False, CACHE_MAX = 1000, CACHE_TTL_MS = 300000\<rparr>"

definition stop_a :: geo where
  "stop_a = \<lparr>lat = 320853 / 10000, lon = 347818 / 10000\<rparr>"

definition stop_b :: geo where
  "stop_b = \<lparr>lat = 321093 / 10000, lon = 348555 / 10000\<rparr>"

definition example_route_stops :: "geo list" where
  "example_route_stops = [stop_a, stop_b]"

definition request_avoiding :: "string list \<Rightarrow> route_request" where
  "request_avoiding terms =
     \<lparr>req_stops = example_route_stops, req_mode = Some ''drive'', req_avoid = terms,
      req_testForceRelax = False\<rparr>"

definition good_answer :: osrm_result where
  "good_answer = OsrmJson \<lparr>j_code = Some ''Ok'',
     j_routes = [\<lparr>r_distance = Some 12000, r_duration = Some 900, r_geometry = Some ''LineString''\<rparr>],
     j_message = None\<rparr>"

definition net_of :: "osrm_result \<Rightarrow> osrm_result \<Rightarrow> net" where
  "net_of first second = \<lparr>ors_answer = OrsException ''unused'', osrm_first = first, osrm_second = second\<rparr>"

definition no_route_answer :: osrm_result where
  "no_route_answer = OsrmJson \<lparr>j_code = Some ''NoRoute'', j_routes = [], j_message = Some ''Impossible route''\<rparr>"


definition good_payload :: "bool \<Rightarrow> payload" where
  "good_payload relaxed = \<lparr>pl_distance_m = 12000, pl_duration_s = 900, pl_geometry = Some ''LineString'',
     route_retry_relaxed = relaxed\<rparr>"

lemma js_round_of_int: "js_round (of_int n) = n"
  unfolding js_round_def by linarith

lemma round_or0_examples: "round_or0 (Some 12000) = 12000" "round_or0 (Some 900) = 900"
  using js_round_of_int [of 12000] js_round_of_int [of 900] by (simp_all add: round_or0_def)

lemma example_valid: "valid_request (request_avoiding terms)"
  by (simp add: valid_request_def request_avoiding_def example_route_stops_def stop_a_def stop_b_def)

lemma example_excludes:
  "buildExcludeParam [] = []" "buildExcludeParam [''tolls''] = ''toll''"
  "buildExcludeParam [''scenic''] = []"
  by (simp_all add: buildExcludeParam_def AVOID_MAP_def List.map_filter_simps dedupe_def)



lemma example_ends:
  "hd (req_stops (request_avoiding terms)) = stop_a"
  "last (req_stops (request_avoiding terms)) = stop_b"
  by (simp_all add: request_avoiding_def example_route_stops_def)

lemmas route_eval =
  route_handler_def Let_def cache_get_def init_server_def ors_stage_def osrm_attempts_def
  first_attempt_def retry_needed_def route_found_def osrm_ok_def osrm_code_def osrm_routes_def
  osrm_error_def osrm_status_def osrm_message_def breaker_after_def failure_code_def
  failure_message_def osrm_payload_def or_str_def truthy_str_def net_of_def example_cfg_def
  good_answer_def good_payload_def round_or0_examples example_valid example_ends


lemma example_exclude_of:
  "buildExcludeParam (req_avoid (request_avoiding [''tolls''])) = ''toll''"
  "buildExcludeParam (req_avoid (request_avoiding [''scenic''])) = []"
  "buildExcludeParam (req_avoid (request_avoiding [])) = []"
  by (simp_all add: request_avoiding_def example_excludes)

lemma example_relaxed_full:
  "route_handler example_cfg (net_of no_route_answer good_answer) 0 1 (init_server example_cfg)
          (request_avoiding [''tolls''])
     = (Ok200 (good_payload True),
        (init_server example_cfg)\<lparr>cache := cache_set 1 (cache (init_server example_cfg))
             (keyFor (req_stops (request_avoiding [''tolls''])) ''toll'') (good_payload True)\<rparr>,
        [CallOSRM stop_a stop_b ''toll'', CallOSRM stop_a stop_b []])"
  unfolding route_handler_def example_exclude_of
  by (simp add: route_eval no_route_answer_def)









definition warmed_server :: server where
  "warmed_server = (init_server example_cfg)\<lparr>cache := cache_set 1 (cache (init_server example_cfg))
       (keyFor (req_stops (request_avoiding [])) []) (good_payload False)\<rparr>"

lemma example_retry_plain_run:
  "route_handler example_cfg (net_of (OsrmError ''timeout'') good_answer) 0 1 (init_server example_cfg)
          (request_avoiding [])
     = (Ok200 (good_payload False), warmed_server,
        [CallOSRM stop_a stop_b [], CallOSRM stop_a stop_b []])"
  unfolding route_handler_def example_exclude_of
  by (simp add: route_eval warmed_server_def)


section \<open>The detour step through the matrix cache, and further worked examples\<close>

text \<open>
  The detour step as the specification words it, for comparison: the matrix for
  \<open>[origin, candidate, destination]\<close> is asked of the matrix cache
  (\<open>getTravelMatrix\<close>) instead of the provider.
\<close>

definition score_one_via_cache ::
  "(geo list \<Rightarrow> string \<Rightarrow> int option \<Rightarrow> matrix_resp) \<Rightarrow> matrix_result matrix_store \<Rightarrow> int \<Rightarrow> string \<Rightarrow>
   geo \<Rightarrow> geo \<Rightarrow> rat \<Rightarrow> nat \<Rightarrow> place \<Rightarrow> scored option" where
  "score_one_via_cache provider store now mode origin dest maxDetourMin j c =
     score_one
       (\<lambda>j pts. case fst (getTravelMatrix provider store now now pts mode None) of
                   Inl err \<Rightarrow> MatrixFail err
                 | Inr m \<Rightarrow> MatrixOk m)
       origin dest maxDetourMin j c"

lemma detour_of_eq: "detour_of a b d = max 0 ((a + b - d + 30) div 60)"
  by (simp add: detour_of_def js_round_div60)

lemma score_one_finite:
  assumes "truthy_num (nullish (p_latitude c) (p_lat c))"
    and "truthy_num (nullish (p_longitude c) (p_lon c))"
    and "matrix j [origin, \<lparr>lat = the (nullish (p_latitude c) (p_lat c)),
                            lon = the (nullish (p_longitude c) (p_lon c))\<rparr>, dest] = MatrixOk m"
    and "dur_at (duration_s m) 0 1 = Fin a"
    and "dur_at (duration_s m) 1 2 = Fin b"
    and "dur_at (duration_s m) 0 2 = Fin d"
  shows "map_option detour_min (score_one matrix origin dest maxDetourMin j c)
           = (if of_int (detour_of a b d) \<le> maxDetourMin then Some (detour_of a b d) else None)"
  unfolding score_one_def Let_def using assms by simp

lemma example_score_one:
  "map_option detour_min (score_one example_matrix \<lparr>lat = 0, lon = 0\<rparr> \<lparr>lat = 1, lon = 1\<rparr> 15 0
      (example_place ''a'' 4)) = Some 2"
  by code_simp

text \<open>
  A store that holds a matrix for the three points of candidate a, and a provider that
  now answers other travel times.
\<close>

definition fresh_provider :: "geo list \<Rightarrow> string \<Rightarrow> int option \<Rightarrow> matrix_resp" where
  "fresh_provider pts mode iso_t = legs (Fin 300) (Fin 400) (Fin 100)"

definition warm_store :: "matrix_result matrix_store" where
  "warm_store =
     setMatrixCache Map.empty 0
       (matrix_key ''DRIVE'' [\<lparr>lat = 0, lon = 0\<rparr>, \<lparr>lat = 1 / 2, lon = 1 / 4\<rparr>, \<lparr>lat = 1, lon = 1\<rparr>] None 1000)
       (legs_result (Fin 300) (Fin 400) (Fin 600))"

lemma fresh_detour:
  "map_option detour_min (score_one (\<lambda>j pts. fresh_provider pts ''DRIVE'' None)
            \<lparr>lat = 0, lon = 0\<rparr> \<lparr>lat = 1, lon = 1\<rparr> 15 0 (example_place ''a'' 4)) = Some 10"
  by code_simp

lemma warm_lookup:
  "getTravelMatrix fresh_provider warm_store 1000 1000
     [\<lparr>lat = 0, lon = 0\<rparr>, \<lparr>lat = 1 / 2, lon = 1 / 4\<rparr>, \<lparr>lat = 1, lon = 1\<rparr>] ''DRIVE'' None
   = (Inr (legs_result (Fin 300) (Fin 400) (Fin 600)), warm_store, 0)"
  by (simp add: getTravelMatrix_def getMatrixCache_def warm_store_def setMatrixCache_def Let_def)

lemma cached_detour:
  "map_option detour_min (score_one_via_cache fresh_provider warm_store 1000 ''DRIVE''
            \<lparr>lat = 0, lon = 0\<rparr> \<lparr>lat = 1, lon = 1\<rparr> 15 0 (example_place ''a'' 4)) = Some 2"
proof -
  have "map_option detour_min (score_one (\<lambda>j pts. legs (Fin 300) (Fin 400) (Fin 600))
            \<lparr>lat = 0, lon = 0\<rparr> \<lparr>lat = 1, lon = 1\<rparr> 15 0 (example_place ''a'' 4)) = Some 2"
    by code_simp
  moreover have "score_one_via_cache fresh_provider warm_store 1000 ''DRIVE''
            \<lparr>lat = 0, lon = 0\<rparr> \<lparr>lat = 1, lon = 1\<rparr> 15 0 (example_place ''a'' 4)
        = score_one (\<lambda>j pts. legs (Fin 300) (Fin 400) (Fin 600))
            \<lparr>lat = 0, lon = 0\<rparr> \<lparr>lat = 1, lon = 1\<rparr> 15 0 (example_place ''a'' 4)"
    by (simp add: score_one_via_cache_def score_one_def Let_def example_place_def nullish_def
          truthy_num_def warm_lookup legs_def)
  ultimately show ?thesis by simp
qed

definition example_pts :: "geo list" where
  "example_pts = [\<lparr>lat = 0, lon = 0\<rparr>, \<lparr>lat = 1 / 2, lon = 1 / 4\<rparr>, \<lparr>lat = 1, lon = 1\<rparr>]"

lemma buckets: "timeBucket None 0 = 0" "timeBucket None 60000 = 0" "timeBucket None 299999 = 0"
  "timeBucket None 300000 = 1" "timeBucket (Some 100) t = 0"
  by (simp_all add: timeBucket_def)



section \<open>Claims about the greedy ordering\<close>

text \<open>
  C2. For a day plan built from a complete travel matrix (every pair of the \<open>n\<close>
  waypoints has a finite travel time), the greedy nearest-neighbour order starts at the
  origin index 0, ends at the destination index \<open>n - 1\<close>, which is appended after the
  loop whatever the loop did, and has in between every candidate \<open>1 .. n - 2\<close> exactly
  once. The order is a function of the matrix and \<open>n\<close> alone.
\<close>

theorem tsp_order_visits_all:
  assumes "2 \<le> n" and "complete_matrix n dur"
  shows "\<exists>mid. tsp_order dur n = [0] @ mid @ [n - 1] \<and> mset mid = mset [1..<n - 1]"
proof -
  have "\<exists>ext. greedy dur [0] [1..<n - 1] = [0] @ ext \<and> mset ext = mset [1..<n - 1]"
    using assms by (intro greedy_complete [of n]) auto
  then show ?thesis by (auto simp: tsp_order_def)
qed

theorem tsp_order_visits_all_witness:
  "2 \<le> (4::nat) \<and> complete_matrix 4 example_dur \<and>
   (\<exists>mid. tsp_order example_dur 4 = [0] @ mid @ [4 - 1] \<and> mset mid = mset [1..<4 - 1])"
  using tsp_order_visits_all [of 4 example_dur]
  by (simp add: complete_matrix_def example_dur_def)

text \<open>
  C9. In the greedy pass the element at position \<open>k + 1\<close> of the order is chosen from
  the candidates not yet visited: no unvisited candidate \<open>j\<close> is strictly nearer to the
  last-visited node, and among the unvisited candidates at the same travel time the one
  chosen has the smallest original index (the comparison \<open>d < bestd\<close> is strict and the
  set is iterated in insertion order, so the first minimal candidate met wins).
\<close>

theorem tsp_order_tie_break:
  assumes "Suc k < length (tsp_order dur n) - 1"
    and "j \<in> set [1..<n - 1]"
    and "j \<notin> set (take (Suc k) (tsp_order dur n))"
  shows "\<not> js_lt (dur_at dur (tsp_order dur n ! k) j)
              (dur_at dur (tsp_order dur n ! k) (tsp_order dur n ! Suc k)) \<and>
         (dur_at dur (tsp_order dur n ! k) j
            = dur_at dur (tsp_order dur n ! k) (tsp_order dur n ! Suc k)
          \<longrightarrow> tsp_order dur n ! Suc k \<le> j)"
proof -
  have "sorted [1..<n - 1]" and "distinct [1..<n - 1]" by simp_all
  from greedy_choices [OF this, of dur "[0]"] obtain ext where
    g: "greedy dur [0] [1..<n - 1] = [0] @ ext" and
    steps: "\<forall>k<length ext. choice_ok dur (last ([0] @ take k ext))
                               (set [1..<n - 1] - set (take k ext)) (ext ! k)" by blast
  have ord: "tsp_order dur n = 0 # ext @ [n - 1]" using g by (simp add: tsp_order_def)
  from assms(1) ord have k: "k < length ext" by simp
  have cur: "tsp_order dur n ! Suc k = ext ! k" using ord k by (simp add: nth_append)
  have "tsp_order dur n ! k = (0 # ext) ! k"
    using ord k by (metis append_Cons length_Cons less_SucI nth_append)
  then have prev: "tsp_order dur n ! k = last ([0] @ take k ext)"
    using last_prefix_nth [OF k, of 0] by simp
  have "take (Suc k) (tsp_order dur n) = 0 # take k ext" using ord k by simp
  with assms(2,3) have j: "j \<in> set [1..<n - 1] - set (take k ext)" by simp
  from steps k have "choice_ok dur (last ([0] @ take k ext))
                       (set [1..<n - 1] - set (take k ext)) (ext ! k)" by blast
  with j show ?thesis unfolding choice_ok_def cur prev by blast
qed

theorem tsp_order_tie_break_witness:
  "Suc 0 < length (tsp_order example_dur 4) - 1 \<and> 2 \<in> set [1..<4 - 1] \<and>
   2 \<notin> set (take (Suc 0) (tsp_order example_dur 4)) \<and>
   dur_at example_dur (tsp_order example_dur 4 ! 0) 2
     = dur_at example_dur (tsp_order example_dur 4 ! 0) (tsp_order example_dur 4 ! Suc 0) \<and>
   tsp_order example_dur 4 ! Suc 0 \<le> 2 \<and> tsp_order example_dur 4 ! Suc 0 = 1"
  using tsp_order_tie_break [of 0 example_dur 4 2]
  by (simp add: example_order) (simp add: dur_at_def example_dur_def)

section \<open>Claims about search along route\<close>




text \<open>
  C7, as amended. For a candidate with usable coordinates whose matrix the provider
  answered, a candidate with an unreachable leg (\<open>Infinity\<close>) is discarded; with three
  finite legs \<open>detour_min\<close> is \<open>max 0 (round ((o_to_c + c_to_d - o_to_d) / 60))\<close>, so a
  negative detour becomes zero, and the candidate is kept when this is at most
  \<open>maxDetourMin\<close>; legs of 300 s and 400 s against 600 s give 100 s, 2 minutes. The
  matrix is the answer of the provider call made for this candidate (the argument
  \<open>matrix\<close>), not an entry of the matrix cache.
\<close>

theorem sar_detour:
  assumes "truthy_num (nullish (p_latitude c) (p_lat c))"
    and "truthy_num (nullish (p_longitude c) (p_lon c))"
    and "matrix j [origin, \<lparr>lat = the (nullish (p_latitude c) (p_lat c)),
                            lon = the (nullish (p_longitude c) (p_lon c))\<rparr>, dest] = MatrixOk m"
    and "dur_at (duration_s m) 0 1 = o_to_c"
    and "dur_at (duration_s m) 1 2 = c_to_d"
    and "dur_at (duration_s m) 0 2 = o_to_d"
  shows "(\<not> isFinite o_to_c \<or> \<not> isFinite c_to_d \<or> \<not> isFinite o_to_d
            \<longrightarrow> score_one matrix origin dest maxDetourMin j c = None) \<and>
         (\<forall>a b d. o_to_c = Fin a \<and> c_to_d = Fin b \<and> o_to_d = Fin d \<longrightarrow>
            map_option detour_min (score_one matrix origin dest maxDetourMin j c)
              = (if of_int (max 0 (js_round (of_int ((a + b) - d) / 60))) \<le> maxDetourMin
                 then Some (max 0 (js_round (of_int ((a + b) - d) / 60))) else None) \<and>
            ((a + b) - d < 0 \<longrightarrow> max 0 (js_round (of_int ((a + b) - d) / 60)) = 0)) \<and>
         detour_of 300 400 600 = 2"
proof (intro conjI allI impI)
  assume "\<not> isFinite o_to_c \<or> \<not> isFinite c_to_d \<or> \<not> isFinite o_to_d"
  then have "\<not> (\<exists>a b d. o_to_c = Fin a \<and> c_to_d = Fin b \<and> o_to_d = Fin d)" by auto
  with score_one_Some [of matrix origin dest maxDetourMin j c] assms(3-6)
  have "\<forall>s. score_one matrix origin dest maxDetourMin j c \<noteq> Some s" by fastforce
  then show "score_one matrix origin dest maxDetourMin j c = None" by simp
next
  fix a b d assume "o_to_c = Fin a \<and> c_to_d = Fin b \<and> o_to_d = Fin d"
  with score_one_finite [where matrix = matrix and j = j and c = c and origin = origin
      and dest = dest and m = m and a = a and b = b and d = d and maxDetourMin = maxDetourMin]
    assms
  show "map_option detour_min (score_one matrix origin dest maxDetourMin j c)
              = (if of_int (max 0 (js_round (of_int ((a + b) - d) / 60))) \<le> maxDetourMin
                 then Some (max 0 (js_round (of_int ((a + b) - d) / 60))) else None)"
    by (simp add: detour_of_def)
next
  fix a b d :: int assume "(a + b) - d < 0"
  then have "(a + b - d + 30) div 60 \<le> 29 div 60" by (intro zdiv_mono1) simp_all
  then have "(a + b - d + 30) div 60 \<le> 0" by simp
  then show "max 0 (js_round (of_int ((a + b) - d) / 60)) = 0"
    unfolding js_round_div60 by simp
next
  show "detour_of 300 400 600 = 2" by (simp add: detour_of_eq)
qed

theorem sar_detour_witness:
  "truthy_num (nullish (p_latitude (example_place ''a'' 4)) (p_lat (example_place ''a'' 4))) \<and>
   truthy_num (nullish (p_longitude (example_place ''a'' 4)) (p_lon (example_place ''a'' 4))) \<and>
   example_matrix 0 [\<lparr>lat = 0, lon = 0\<rparr>, \<lparr>lat = 1 / 2, lon = 1 / 4\<rparr>, \<lparr>lat = 1, lon = 1\<rparr>]
     = MatrixOk (legs_result (Fin 300) (Fin 400) (Fin 600)) \<and>
   dur_at (duration_s (legs_result (Fin 300) (Fin 400) (Fin 600))) 0 1 = Fin 300 \<and>
   dur_at (duration_s (legs_result (Fin 300) (Fin 400) (Fin 600))) 1 2 = Fin 400 \<and>
   dur_at (duration_s (legs_result (Fin 300) (Fin 400) (Fin 600))) 0 2 = Fin 600 \<and>
   map_option detour_min (score_one example_matrix \<lparr>lat = 0, lon = 0\<rparr> \<lparr>lat = 1, lon = 1\<rparr> 15 0
      (example_place ''a'' 4)) = Some 2"
  using sar_detour [where c = "example_place ''a'' 4" and matrix = example_matrix and j = 0
      and origin = "\<lparr>lat = 0, lon = 0\<rparr>" and dest = "\<lparr>lat = 1, lon = 1\<rparr>"
      and m = "legs_result (Fin 300) (Fin 400) (Fin 600)" and maxDetourMin = 15
      and o_to_c = "Fin 300" and c_to_d = "Fin 400" and o_to_d = "Fin 600"]
  by (simp add: example_score_one)
     (simp add: example_place_def example_matrix_def legs_def legs_result_def dur_at_def
        truthy_num_def nullish_def)

text \<open>
  C7 as stated has the matrix come from the matrix cache. With a valid cache entry for the
  three points (detour 2 minutes) and a provider that now answers other travel times
  (detour 10 minutes), the source's step yields 10 and the step through the cache 2.
\<close>

theorem sar_detour_not_cached:
  "map_option detour_min (score_one (\<lambda>j pts. fresh_provider pts ''DRIVE'' None)
            \<lparr>lat = 0, lon = 0\<rparr> \<lparr>lat = 1, lon = 1\<rparr> 15 0 (example_place ''a'' 4)) = Some 10 \<and>
   map_option detour_min (score_one_via_cache fresh_provider warm_store 1000 ''DRIVE''
            \<lparr>lat = 0, lon = 0\<rparr> \<lparr>lat = 1, lon = 1\<rparr> 15 0 (example_place ''a'' 4)) = Some 2"
  by (simp only: fresh_detour cached_detour)

section \<open>Claims about the matrix cache\<close>

text \<open>
  C8, as amended. A lookup hits exactly when the store has an entry under the key with
  \<open>now - insertedAt \<le> 60000\<close> ms; an older entry is deleted by the lookup that finds
  it and counts as absent. The test does not look at the time bucket: an entry stored
  for an explicit departure time is found again at any \<open>now\<close> within the 60 s, also one
  that lies in a later bucket. A request whose departure time (explicit, or the current
  time) lies in another bucket has another key, so the entry of the neighbouring bucket
  is never served to it.
\<close>

theorem matrix_cache_ttl:
  shows "((\<exists>v. fst (getMatrixCache store now mode points iso_t)
              = Hit (matrix_key mode points iso_t now) v)
          \<longleftrightarrow> (\<exists>t v. store (matrix_key mode points iso_t now) = Some (t, v) \<and> now - t \<le> 60000)) \<and>
         (\<forall>t v. store (matrix_key mode points iso_t now) = Some (t, v) \<longrightarrow>
            getMatrixCache store now mode points iso_t
              = (if now - t \<le> 60000 then (Hit (matrix_key mode points iso_t now) v, store)
                 else (Miss (matrix_key mode points iso_t now),
                       store(matrix_key mode points iso_t now := None)))) \<and>
         (store (matrix_key mode points iso_t now) = None \<longrightarrow>
            getMatrixCache store now mode points iso_t = (Miss (matrix_key mode points iso_t now), store)) \<and>
         (\<forall>t dep w. now - t \<le> 60000 \<longrightarrow>
            fst (getMatrixCache (setMatrixCache store t (matrix_key mode points (Some dep) t) w)
                   now mode points (Some dep))
              = Hit (matrix_key mode points (Some dep) now) w) \<and>
         (\<forall>t1 iso1 w. timeBucket iso1 t1 \<noteq> timeBucket iso_t now \<longrightarrow>
            fst (getMatrixCache (setMatrixCache store t1 (matrix_key mode points iso1 t1) w)
                   now mode points iso_t)
              = fst (getMatrixCache store now mode points iso_t) \<and>
            fst (getMatrixCache (setMatrixCache Map.empty t1 (matrix_key mode points iso1 t1) w)
                   now mode points iso_t)
              = Miss (matrix_key mode points iso_t now))"
proof (intro conjI allI impI)
  show "(\<exists>v. fst (getMatrixCache store now mode points iso_t)
              = Hit (matrix_key mode points iso_t now) v)
          \<longleftrightarrow> (\<exists>t v. store (matrix_key mode points iso_t now) = Some (t, v) \<and> now - t \<le> 60000)"
    by (auto simp: getMatrixCache_def Let_def split: option.splits)
next
  fix t v assume "store (matrix_key mode points iso_t now) = Some (t, v)"
  then show "getMatrixCache store now mode points iso_t
              = (if now - t \<le> 60000 then (Hit (matrix_key mode points iso_t now) v, store)
                 else (Miss (matrix_key mode points iso_t now),
                       store(matrix_key mode points iso_t now := None)))"
    by (simp add: getMatrixCache_def Let_def)
next
  assume "store (matrix_key mode points iso_t now) = None"
  then show "getMatrixCache store now mode points iso_t = (Miss (matrix_key mode points iso_t now), store)"
    by (simp add: getMatrixCache_def Let_def)
next
  fix t dep w assume "now - t \<le> 60000"
  moreover have "matrix_key mode points (Some dep) t = matrix_key mode points (Some dep) now"
    by (simp add: matrix_key_def timeBucket_def)
  ultimately show "fst (getMatrixCache (setMatrixCache store t (matrix_key mode points (Some dep) t) w)
                   now mode points (Some dep))
              = Hit (matrix_key mode points (Some dep) now) w"
    by (simp add: getMatrixCache_def setMatrixCache_def Let_def)
next
  fix t1 iso1 w assume "timeBucket iso1 t1 \<noteq> timeBucket iso_t now"
  then have ne: "matrix_key mode points iso_t now \<noteq> matrix_key mode points iso1 t1"
    by (simp add: matrix_key_bucket)
  then show "fst (getMatrixCache (setMatrixCache store t1 (matrix_key mode points iso1 t1) w)
                   now mode points iso_t)
              = fst (getMatrixCache store now mode points iso_t)"
    by (auto simp: getMatrixCache_def setMatrixCache_def Let_def split: option.splits)
  from ne show "fst (getMatrixCache (setMatrixCache Map.empty t1 (matrix_key mode points iso1 t1) w)
                   now mode points iso_t)
              = Miss (matrix_key mode points iso_t now)"
    by (simp add: getMatrixCache_def setMatrixCache_def Let_def)
qed

theorem matrix_cache_ttl_witness:
  "getMatrixCache (setMatrixCache Map.empty 0 (matrix_key ''DRIVE'' example_pts None 0) (7::nat))
       60000 ''DRIVE'' example_pts None
     = (Hit (matrix_key ''DRIVE'' example_pts None 60000) 7,
        setMatrixCache Map.empty 0 (matrix_key ''DRIVE'' example_pts None 0) 7) \<and>
   getMatrixCache (setMatrixCache Map.empty 0 (matrix_key ''DRIVE'' example_pts None 0) (7::nat))
       60001 ''DRIVE'' example_pts None
     = (Miss (matrix_key ''DRIVE'' example_pts None 60001), Map.empty) \<and>
   (300001::int) - 299999 \<le> 60000 \<and>
   fst (getMatrixCache (setMatrixCache Map.empty 299999 (matrix_key ''DRIVE'' example_pts (Some 100) 299999) (7::nat))
       300001 ''DRIVE'' example_pts (Some 100))
     = Hit (matrix_key ''DRIVE'' example_pts (Some 100) 300001) 7 \<and>
   timeBucket None 299999 \<noteq> timeBucket None 300000 \<and>
   fst (getMatrixCache (setMatrixCache Map.empty 299999 (matrix_key ''DRIVE'' example_pts None 299999) (7::nat))
       300000 ''DRIVE'' example_pts None)
     = Miss (matrix_key ''DRIVE'' example_pts None 300000)"
proof -
  have k: "matrix_key ''DRIVE'' example_pts None 60000 = matrix_key ''DRIVE'' example_pts None 0"
    "matrix_key ''DRIVE'' example_pts None 60001 = matrix_key ''DRIVE'' example_pts None 0"
    by (simp_all add: matrix_key_bucket timeBucket_def)
  note a = matrix_cache_ttl [of "setMatrixCache Map.empty 0 (matrix_key ''DRIVE'' example_pts None 0) (7::nat)"
      60000 "''DRIVE''" example_pts None]
  note b = matrix_cache_ttl [of "setMatrixCache Map.empty 0 (matrix_key ''DRIVE'' example_pts None 0) (7::nat)"
      60001 "''DRIVE''" example_pts None]
  note c = matrix_cache_ttl [of "Map.empty :: nat matrix_store" 300001 "''DRIVE''" example_pts "Some 100"]
  note d = matrix_cache_ttl [of "Map.empty :: nat matrix_store" 300000 "''DRIVE''" example_pts None]
  have 1: "getMatrixCache (setMatrixCache Map.empty 0 (matrix_key ''DRIVE'' example_pts None 0) (7::nat))
       60000 ''DRIVE'' example_pts None
     = (Hit (matrix_key ''DRIVE'' example_pts None 60000) 7,
        setMatrixCache Map.empty 0 (matrix_key ''DRIVE'' example_pts None 0) 7)"
    using a by (simp add: k setMatrixCache_def)
  have 2: "getMatrixCache (setMatrixCache Map.empty 0 (matrix_key ''DRIVE'' example_pts None 0) (7::nat))
       60001 ''DRIVE'' example_pts None
     = (Miss (matrix_key ''DRIVE'' example_pts None 60001), Map.empty)"
    using b by (simp add: k setMatrixCache_def)
  have 3: "fst (getMatrixCache (setMatrixCache Map.empty 299999 (matrix_key ''DRIVE'' example_pts (Some 100) 299999) (7::nat))
       300001 ''DRIVE'' example_pts (Some 100))
     = Hit (matrix_key ''DRIVE'' example_pts (Some 100) 300001) 7"
    using c by simp
  have 4: "fst (getMatrixCache (setMatrixCache Map.empty 299999 (matrix_key ''DRIVE'' example_pts None 299999) (7::nat))
       300000 ''DRIVE'' example_pts None)
     = Miss (matrix_key ''DRIVE'' example_pts None 300000)"
    using d by (simp add: buckets)
  from 1 2 3 4 show ?thesis by (simp add: buckets)
qed

text \<open>
  C8 as stated calls an entry valid iff \<open>now - insertedAt < 60 s\<close>. At exactly 60000 ms the
  source still serves it, since it evicts on \<open>Date.now() - ent.t > 60_000\<close>.
\<close>

theorem matrix_cache_ttl_boundary:
  "fst (getMatrixCache (setMatrixCache Map.empty 0 (matrix_key ''DRIVE'' example_pts None 0) (7::nat))
       60000 ''DRIVE'' example_pts None)
     = Hit (matrix_key ''DRIVE'' example_pts None 60000) 7 \<and>
   \<not> ((60000::int) - 0 < 60000)"
proof -
  have "matrix_key ''DRIVE'' example_pts None 60000 = matrix_key ''DRIVE'' example_pts None 0"
    by (simp add: matrix_key_bucket timeBucket_def)
  then show ?thesis by (simp add: getMatrixCache_def setMatrixCache_def Let_def)
qed

section \<open>Claims about the day planner's origin and destination\<close>



section \<open>Claims about the route handler\<close>









text \<open>
  C5. In every state the server can reach, a successful response with
  \<open>route_retry_relaxed = true\<close> is the response to a request with at least one avoid term
  and a non-empty exclude parameter; when it was computed by this request, it is the
  result of the retry, whose call carried no exclude parameter. A request without avoid
  terms never gets \<open>route_retry_relaxed = true\<close>, from the cache or from either provider.
\<close>

theorem relaxed_only_if_avoid:
  assumes "reachable cfg srv"
    and "route_handler cfg nw now later srv req = (Ok200 p, srv', calls)"
  shows "(route_retry_relaxed p \<longrightarrow>
            req_avoid req \<noteq> [] \<and> buildExcludeParam (req_avoid req) \<noteq> [] \<and>
            (calls \<noteq> [] \<longrightarrow>
               last calls = CallOSRM (hd (req_stops req)) (last (req_stops req)) [] \<and>
               p = osrm_payload (hd (osrm_routes (osrm_second nw))) True)) \<and>
         (req_avoid req = [] \<longrightarrow> \<not> route_retry_relaxed p)"
proof -
  let ?ex = "buildExcludeParam (req_avoid req)"
  have inv: "cache_inv (cache srv)" using assms(1) by (rule reachable_inv)
  have main: "route_retry_relaxed p \<longrightarrow> ?ex \<noteq> [] \<and>
            (calls \<noteq> [] \<longrightarrow>
               last calls = CallOSRM (hd (req_stops req)) (last (req_stops req)) [] \<and>
               p = osrm_payload (hd (osrm_routes (osrm_second nw))) True)"
  proof (rule handler_cases [where cfg = cfg and nw = nw and now = now and later = later
      and srv = srv and req = req], goal_cases)
    case 1
    from same_result [OF 1(2) assms(2)] show ?case by simp
  next
    case (2 hit c)
    from cache_get_inv [OF inv 2(2)] have "relaxed_keyed (keyFor (req_stops req) ?ex) hit" by simp
    then have "route_retry_relaxed hit \<longrightarrow> ?ex \<noteq> []" by (simp add: relaxed_keyed_def key_colon)
    with same_result [OF 2(3) assms(2)] show ?case by simp
  next
    case (3 c)
    from same_result [OF 3(4) assms(2)] show ?case by simp
  next
    case (4 c q provider calls0)
    from ors_stage_payload [OF 4(3)] same_result [OF 4(4) assms(2)] show ?case by simp
  next
    case (5 c provider calls0 first relaxed provider' calls')
    from same_result [OF 5(5) assms(2)] show ?case by simp
  next
    case (6 c provider calls0 first relaxed provider' calls')
    from same_result [OF 6(6) assms(2)]
    have p: "p = osrm_payload (hd (osrm_routes first)) relaxed" and cl: "calls = calls0 @ calls'"
      by simp_all
    show ?case
    proof (cases relaxed)
      case False
      with p show ?thesis by (simp add: osrm_payload_def)
    next
      case True
      from osrm_attempts_relaxed [OF 6(4) True] have ex: "?ex \<noteq> []"
        and c': "calls' = [CallOSRM (hd (req_stops req)) (last (req_stops req)) ?ex,
                          CallOSRM (hd (req_stops req)) (last (req_stops req)) []]" by simp_all
      have "first = osrm_second nw"
        by (rule osrm_attempts_cases [where cfg = cfg and nw = nw and req = req and exclude = ?ex
              and provider = provider]) (use 6(4) True in auto)
      with p True ex cl c' show ?thesis by simp
    qed
  qed
  have "?ex \<noteq> [] \<longrightarrow> req_avoid req \<noteq> []" using exclude_of_no_avoid by auto
  with main show ?thesis by blast
qed

theorem relaxed_only_if_avoid_witness:
  "reachable example_cfg (init_server example_cfg) \<and>
   route_handler example_cfg (net_of no_route_answer good_answer) 0 1 (init_server example_cfg)
          (request_avoiding [''tolls''])
     = (Ok200 (good_payload True),
        (init_server example_cfg)\<lparr>cache := cache_set 1 (cache (init_server example_cfg))
             (keyFor (req_stops (request_avoiding [''tolls''])) ''toll'') (good_payload True)\<rparr>,
        [CallOSRM stop_a stop_b ''toll'', CallOSRM stop_a stop_b []]) \<and>
   route_retry_relaxed (good_payload True) \<and>
   req_avoid (request_avoiding [''tolls'']) \<noteq> [] \<and>
   last [CallOSRM stop_a stop_b ''toll'', CallOSRM stop_a stop_b []]
     = CallOSRM (hd (req_stops (request_avoiding [''tolls''])))
         (last (req_stops (request_avoiding [''tolls'']))) [] \<and>
   req_avoid (request_avoiding []) = [] \<and>
   route_handler example_cfg (net_of (OsrmError ''timeout'') good_answer) 0 1 (init_server example_cfg)
          (request_avoiding [])
     = (Ok200 (good_payload False), warmed_server,
        [CallOSRM stop_a stop_b [], CallOSRM stop_a stop_b []]) \<and>
   \<not> route_retry_relaxed (good_payload False)"
proof -
  have r: "route_retry_relaxed (good_payload True)" "\<not> route_retry_relaxed (good_payload False)"
    by (simp_all add: good_payload_def)
  from relaxed_only_if_avoid [OF reachable_init example_relaxed_full] r(1)
  have 1: "req_avoid (request_avoiding [''tolls'']) \<noteq> []"
    and 2: "last [CallOSRM stop_a stop_b ''toll'', CallOSRM stop_a stop_b []]
     = CallOSRM (hd (req_stops (request_avoiding [''tolls'']))) (last (req_stops (request_avoiding [''tolls'']))) []"
    by simp_all
  have 3: "req_avoid (request_avoiding []) = []" by (simp add: request_avoiding_def)
  from relaxed_only_if_avoid [OF reachable_init example_retry_plain_run] 3
  have 4: "\<not> route_retry_relaxed (good_payload False)" by simp
  from 1 2 3 4 r(1) show ?thesis
    by (simp only: reachable_init example_relaxed_full example_retry_plain_run simp_thms)
qed

end
